(* ===== verification/DDX_Prelude.thy ===== *)
theory DDX_Prelude
  imports Main "HOL-Library.Word" "HOL-Library.AList"
begin

text \<open>
  Shared vocabulary of the DDX development: the machine types of the C++/Qt sources
  (\<open>qint64\<close> timestamps, the \<open>int\<close> request ids of \<open>RemDev::LocalId\<close>), names for
  the containers the sources use (a \<open>QHash\<close> as an association list with distinct keys,
  a \<open>QList\<close> as a list), the collections of facts the component theories fill
  (\<open>ddx_inv\<close> for invariant preservation, \<open>ddx_frame\<close> for unchanged fields), and
  generic lemmas on association lists and lists that several components share.
\<close>

named_theorems ddx_inv "facts that a step of a DDX component keeps its invariant"
named_theorems ddx_frame "facts that a step of a DDX component leaves a field unchanged"

unbundle bit_operations_syntax

section \<open>Machine types\<close>

type_synonym qint64 = "64 word" \<comment> \<open>Qt's \<open>qint64\<close>: milliseconds since the epoch\<close>
type_synonym local_id = "32 word" \<comment> \<open>\<open>RemDev::LocalId\<close>, a C \<open>int\<close>\<close>
type_synonym handler = nat \<comment> \<open>identity of the \<open>QObject\<close> a response is delivered to\<close>
type_synonym qbytes = string \<comment> \<open>contents of a \<open>QByteArray\<close> or \<open>QString\<close>\<close>

section \<open>Association lists with distinct keys (QHash)\<close>

abbreviation alist_keys :: "('k \<times> 'v) list \<Rightarrow> 'k list" where
  "alist_keys al \<equiv> map fst al"

lemma map_of_filter_distinct:
  assumes "distinct (alist_keys al)"
  shows "map_of (filter P al) k =
           (case map_of al k of None \<Rightarrow> None | Some v \<Rightarrow> if P (k, v) then Some v else None)"
  using assms
proof (induction al)
  case Nil
  then show ?case by simp
next
  case (Cons p al)
  obtain k' v' where p: "p = (k', v')" by (cases p)
  show ?case
  proof (cases "k' = k")
    case True
    with Cons.prems p have "map_of (filter P al) k = None"
      by (auto simp: map_of_eq_None_iff)
    with True p show ?thesis by simp
  next
    case False
    with Cons p show ?thesis by simp
  qed
qed

lemma distinct_keys_filter [simp, intro]:
  "distinct (alist_keys al) \<Longrightarrow> distinct (alist_keys (filter P al))"
  by (simp add: distinct_map_filter)

text \<open>Members after keys that already occur are never found (first match wins).\<close>

lemma map_of_append_shadowed:
  assumes "set (alist_keys ms') \<subseteq> set (alist_keys ms)"
  shows "map_of (ms @ ms') = map_of ms"
proof
  fix k
  show "map_of (ms @ ms') k = map_of ms k"
  proof (cases "map_of ms k")
    case None
    then have "k \<notin> set (alist_keys ms)" by (simp add: map_of_eq_None_iff)
    with assms have "map_of ms' k = None" by (auto simp: map_of_eq_None_iff)
    with None show ?thesis by (simp add: map_add_def)
  next
    case (Some v)
    then show ?thesis by (simp add: map_add_def)
  qed
qed

lemma keys_filter_subset:
  "set (alist_keys (filter P al)) \<subseteq> set (alist_keys al)"
  by auto

section \<open>Signed machine arithmetic\<close>

text \<open>Signed addition that stays in range is integer addition.\<close>

lemma sint_add_no_overflow:
  fixes a b :: "'a::len word"
  assumes "- (2 ^ (LENGTH('a) - 1)) \<le> sint a + sint b" and "sint a + sint b < 2 ^ (LENGTH('a) - 1)"
  shows "sint (a + b) = sint a + sint b"
  using assms by (simp add: sint_word_add signed_take_bit_int_eq_self)

text \<open>Incrementing a C \<open>int\<close> below its maximum.\<close>

lemma sint_incr_32:
  fixes c :: "32 word"
  assumes "sint c < 2 ^ 31 - 1"
  shows "sint (c + 1) = sint c + 1"
proof -
  have "- (2 ^ 31) \<le> sint c" using sint_ge [of c] by simp
  with assms sint_add_no_overflow [of c 1] show ?thesis by simp
qed


lemma sless_int64_max:
  fixes w :: qint64
  assumes "w \<noteq> 0x7FFFFFFFFFFFFFFF"
  shows "w <s 0x7FFFFFFFFFFFFFFF"
proof -
  have "sint w < 2 ^ 63" using sint_lt [of w] by simp
  moreover have "sint w \<noteq> 2 ^ 63 - 1"
  proof
    assume "sint w = 2 ^ 63 - 1"
    then have "w = 0x7FFFFFFFFFFFFFFF" by (intro signed_word_eqI) simp
    with assms show False by simp
  qed
  ultimately show ?thesis by (simp add: word_sless_alt)
qed

end
