(* ===== verification/RemDev_Types.thy ===== *)
theory RemDev_Types
  imports DDX_Prelude
begin

text \<open>
  The data model of \<open>src/DDX-testgui/remdev.h\<close>: the enumerations of class \<open>RemDev\<close>
  (device roles as a bit mask, disconnect reasons, registration flags, main-value kinds),
  the bookkeeping record \<open>RemDev::RequestRef\<close> with its constructor and validity test,
  the \<open>Request\<close> and \<open>Response\<close> objects handed to handlers, and the RapidJSON value
  type the envelope is built from (RapidJSON itself is a library: only the part of its
  \<open>Value\<close> that the envelope uses is modelled).
\<close>

section \<open>Device roles (RemDev::DeviceRoles)\<close>

datatype device_role = DaemonRole | ManagerRole | VertexRole | ListenerRole | GlobalRole

primrec role_bit :: "device_role \<Rightarrow> 32 word" where
  "role_bit DaemonRole = 0x1"
| "role_bit ManagerRole = 0x2"
| "role_bit VertexRole = 0x4"
| "role_bit ListenerRole = 0x8"
| "role_bit GlobalRole = 0x80"

definition all_roles :: "device_role list" where
  "all_roles = [DaemonRole, ManagerRole, VertexRole, ListenerRole, GlobalRole]"

text \<open>A \<open>QFlags<DeviceRoles>\<close> value: the OR of the flags, and \<open>testFlag\<close>.\<close>

definition roles_mask :: "device_role list \<Rightarrow> 32 word" where
  "roles_mask rs = foldr (\<lambda>r m. role_bit r OR m) rs 0"

definition testFlag :: "32 word \<Rightarrow> device_role \<Rightarrow> bool" where
  "testFlag m r \<longleftrightarrow> (m AND role_bit r) = role_bit r \<and> (role_bit r \<noteq> 0 \<or> m = role_bit r)"

definition roles_of :: "32 word \<Rightarrow> device_role list" where
  "roles_of m = filter (testFlag m) all_roles"

section \<open>Disconnection reasons (RemDev::DisconnectReason)\<close>

datatype disconnect_reason =
    UnknownReason
  | ShuttingDown
  | Restarting
  | FatalError
  | ConnectionTerminated
  | RegistrationTimeout
  | BufferOverflow
  | StreamClosed
  | EncryptionRequired

section \<open>Registration state flags (RemDev::RegistrationState)\<close>

definition UnregisteredState :: "32 word" where "UnregisteredState = 0x0"
definition RegSentFlag :: "32 word" where "RegSentFlag = 0x1"
definition RegAcceptedFlag :: "32 word" where "RegAcceptedFlag = 0x2"
definition RemoteRegAcceptedFlag :: "32 word" where "RemoteRegAcceptedFlag = 0x4"
definition RegisteredState :: "32 word" where
  "RegisteredState = RegSentFlag OR RegAcceptedFlag OR RemoteRegAcceptedFlag"

lemmas reg_flag_defs =
  UnregisteredState_def RegSentFlag_def RegAcceptedFlag_def RemoteRegAcceptedFlag_def
  RegisteredState_def

section \<open>RapidJSON values\<close>

text \<open>
  \<open>rapidjson::Value\<close>, restricted to what DDX-RPC envelopes carry: integral numbers
  only, objects as member lists in document order (RapidJSON keeps duplicates).
\<close>

datatype jvalue =
    JNull
  | JBool bool
  | JInt int
  | JString string
  | JArray "jvalue list"
  | JObject "(string \<times> jvalue) list"

text \<open>
  \<open>Value::FindMember\<close>: a linear scan that returns the first member with the key.
  This is the single canonical accessor the header asks every reader to use.
\<close>

fun FindMember :: "jvalue \<Rightarrow> string \<Rightarrow> jvalue option" where
  "FindMember (JObject ms) k = map_of ms k"
| "FindMember _ k = None"

section \<open>Standard error codes\<close>

datatype std_error =
    E_JSON_INTERNAL | E_ACCESS_DENIED | E_NOT_SUPPORTED | E_JSON_PARAMS | E_JSON_METHOD
  | E_REQUEST_TIMEOUT

text \<open>
  The numeric values live in \<open>constants.h\<close>, which is not part of the sources: the
  JSON-RPC values are used for the three JSON-RPC errors and distinct server-range values
  for the others. Only their distinctness is used.
\<close>

primrec error_code :: "std_error \<Rightarrow> int" where
  "error_code E_JSON_INTERNAL = -32603"
| "error_code E_ACCESS_DENIED = -32001"
| "error_code E_NOT_SUPPORTED = -32002"
| "error_code E_JSON_PARAMS = -32602"
| "error_code E_JSON_METHOD = -32601"
| "error_code E_REQUEST_TIMEOUT = -32003"

text \<open>The messages of the code-only \<open>RemDev::sendError\<close> overload (its documentation).\<close>

primrec error_message :: "std_error \<Rightarrow> string" where
  "error_message E_JSON_INTERNAL = ''Internal error''"
| "error_message E_ACCESS_DENIED = ''Access denied''"
| "error_message E_NOT_SUPPORTED = ''Not supported''"
| "error_message E_JSON_PARAMS = ''Invalid params''"
| "error_message E_JSON_METHOD = ''Method not found''"
| "error_message E_REQUEST_TIMEOUT = ''Request timed out''"

section \<open>Outgoing request bookkeeping (RemDev::RequestRef)\<close>

text \<open>
  \<open>handlerObj\<close> is a \<open>QPointer<QObject>\<close>: \<open>None\<close> is the null pointer, which Qt
  produces both for a null target and, automatically, once the target is destroyed.
\<close>

record request_ref =
  handlerObj :: "handler option"
  handlerFn :: string
  rr_method :: string
  rr_time :: qint64
  timeout_time :: qint64

definition RequestRef :: "handler option \<Rightarrow> string \<Rightarrow> string \<Rightarrow> qint64 \<Rightarrow> qint64 \<Rightarrow> request_ref" where
  "RequestRef obj fn m timeout now =
     \<lparr>handlerObj = obj, handlerFn = fn, rr_method = m, rr_time = now,
      timeout_time = (if timeout \<noteq> 0 then now + timeout else 0)\<rparr>"

definition valid_RequestRef :: "qint64 \<Rightarrow> request_ref \<Rightarrow> bool" where
  "valid_RequestRef checkTime r =
     (if checkTime \<noteq> 0 \<and> timeout_time r \<noteq> 0 \<and> timeout_time r <s checkTime then False
      else handlerObj r \<noteq> None)"

text \<open>The \<open>QPointer\<close> clears itself when its target is destroyed.\<close>

definition handler_destroyed :: "handler \<Rightarrow> request_ref \<Rightarrow> request_ref" where
  "handler_destroyed h r = (if handlerObj r = Some h then r\<lparr>handlerObj := None\<rparr> else r)"

section \<open>Requests and responses handed to handlers\<close>

text \<open>\<open>RemDev::Request\<close>: \<open>id\<close> is absent (the null pointer) for a notification.\<close>

record request =
  req_method :: string
  req_params :: "jvalue option"
  req_id :: "jvalue option"

definition isRequest :: "request \<Rightarrow> bool" where
  "isRequest r \<longleftrightarrow> req_id r \<noteq> None"

text \<open>\<open>RemDev::Response\<close>: on failure \<open>mainVal\<close> is a verified error object.\<close>

record response =
  successful :: bool
  resp_id :: local_id
  resp_method :: string
  mainVal :: jvalue

datatype MainValType = ParamsT | ResultT | ErrorT

section \<open>Properties of the data model\<close>

lemma role_bit_and: "role_bit r AND role_bit r' = (if r = r' then role_bit r else 0)"
  by (cases r; cases r') simp_all

lemma role_bit_nonzero: "role_bit r \<noteq> 0"
  by (cases r) simp_all

lemma roles_mask_and: "roles_mask rs AND role_bit r = (if r \<in> set rs then role_bit r else 0)"
proof (induction rs)
  case Nil
  then show ?case by (simp add: roles_mask_def)
next
  case (Cons a rs)
  have "roles_mask (a # rs) AND role_bit r =
          (role_bit a AND role_bit r) OR (roles_mask rs AND role_bit r)"
    by (simp add: roles_mask_def bit.conj_disj_distrib2)
  then show ?case using Cons.IH by (auto simp: role_bit_and)
qed

lemma all_roles_complete: "r \<in> set all_roles"
  by (cases r) (simp_all add: all_roles_def)

text \<open>
  A set of device roles packed into the \<open>DeviceRoles\<close> bit mask is recovered
  exactly by testing each flag: every role's bit is distinct from the others'.
\<close>

theorem roles_mask_roundtrip:
  "set (roles_of (roles_mask rs)) = set rs \<and> (testFlag (roles_mask rs) r \<longleftrightarrow> r \<in> set rs)"
  by (auto simp: roles_of_def testFlag_def roles_mask_and role_bit_nonzero all_roles_complete)

text \<open>
  For a positive issue time and timeout whose sum fits in a \<open>qint64\<close>,
  \<open>RequestRef::valid\<close> at a non-zero check time holds exactly while the handler is alive
  and the check time is at most the deadline: the deadline instant itself is still valid.
\<close>

lemma valid_RequestRef_deadline:
  assumes "0 <s now" and "0 <s t" and "sint now + sint t < 2 ^ 63" and "c \<noteq> 0"
  shows "valid_RequestRef c (RequestRef obj fn m t now) \<longleftrightarrow>
           obj \<noteq> None \<and> sint c \<le> sint now + sint t"
proof -
  have s: "sint (now + t) = sint now + sint t"
    using assms by (intro sint_add_no_overflow) (simp_all add: word_sless_alt)
  then have "now + t \<noteq> 0" using assms by (auto simp: word_sless_alt)
  moreover have "t \<noteq> 0" using assms(2) by auto
  ultimately show ?thesis using s assms(4)
    by (auto simp: valid_RequestRef_def RequestRef_def word_sless_alt)
qed

text \<open>
  C33: a timeout so large that issue time plus timeout passes the largest \<open>qint64\<close>
  wraps to a negative deadline: for every positive issue time and timeout whose sum
  overflows, the stored deadline is negative and the request is invalid (timed out) at
  every positive check time, that is at the first poll after it was issued.
\<close>

theorem valid_RequestRef_huge_timeout:
  assumes "0 <s now" and "0 <s t" and "2 ^ 63 \<le> sint now + sint t"
  shows "timeout_time (RequestRef obj fn m t now) <s 0 \<and>
         (\<forall>c. 0 <s c \<longrightarrow> \<not> valid_RequestRef c (RequestRef obj fn m t now))"
proof -
  have b: "sint now < 2 ^ 63" "sint t < 2 ^ 63" using sint_lt [of now] sint_lt [of t] by simp_all
  have "sint (now + t) = signed_take_bit 63 (sint now + sint t)"
    by (simp add: sint_word_add)
  also have "\<dots> = take_bit 64 (sint now + sint t + 2 ^ 63) - 2 ^ 63"
    by (simp add: signed_take_bit_eq_take_bit_shift)
  also have "take_bit 64 (sint now + sint t + 2 ^ 63) = sint now + sint t + 2 ^ 63 - 2 ^ 64"
  proof -
    let ?x = "sint now + sint t + 2 ^ 63 - 2 ^ 64"
    have "0 \<le> ?x" "?x < 2 ^ 64" using assms(3) b by simp_all
    then have x: "?x mod 2 ^ 64 = ?x" by (rule mod_pos_pos_trivial)
    have "take_bit 64 (sint now + sint t + 2 ^ 63) = (sint now + sint t + 2 ^ 63) mod 2 ^ 64"
      by (rule take_bit_eq_mod)
    also have "\<dots> = ?x mod 2 ^ 64" by (simp only: minus_mod_self2)
    finally show ?thesis using x by simp
  qed
  finally have neg: "sint (now + t) < 0" using b by simp
  have t0: "t \<noteq> 0" using assms(2) by auto
  have tt: "timeout_time (RequestRef obj fn m t now) = now + t"
    using t0 by (simp add: RequestRef_def)
  show ?thesis using neg tt
    by (auto simp: valid_RequestRef_def word_sless_alt)
qed

theorem valid_RequestRef_huge_timeout_witness:
  "(0::qint64) <s 1000 \<and> (0::qint64) <s 0x7FFFFFFFFFFFFFFF \<and>
   2 ^ 63 \<le> sint (1000::qint64) + sint (0x7FFFFFFFFFFFFFFF::qint64) \<and>
   timeout_time (RequestRef (Some 7) ''h'' ''m'' 0x7FFFFFFFFFFFFFFF 1000) <s 0 \<and>
   \<not> valid_RequestRef 1001 (RequestRef (Some 7) ''h'' ''m'' 0x7FFFFFFFFFFFFFFF 1000)"
proof -
  have h: "(0::qint64) <s 1000" "(0::qint64) <s 0x7FFFFFFFFFFFFFFF"
    "2 ^ 63 \<le> sint (1000::qint64) + sint (0x7FFFFFFFFFFFFFFF::qint64)"
    by (simp_all add: word_sless_alt)
  have "(0::qint64) <s 1001" by (simp add: word_sless_alt)
  with h valid_RequestRef_huge_timeout [OF h, of "Some 7" "''h''" "''m''"] show ?thesis by blast
qed

end
