(* ===== verification/Correlation.thy ===== *)
theory Correlation
  imports RemDev_Types
begin

text \<open>
  The correlation table of a connection: \<open>RemDev::reqs\<close>, a
  \<open>QHash<LocalId, RequestRef>\<close>, with the id counter \<open>RemDev::lastId\<close>. The
  hash is an association list with distinct keys; its operations are the ones
  \<open>RemDev\<close> performs on it: \<open>insert\<close> (a new outgoing request), \<open>take\<close> (a
  response arrives), the timeout sweep that splits it by \<open>RequestRef::valid\<close>, and
  the automatic clearing of the \<open>QPointer\<close>s of a destroyed handler. The abstract
  view is the partial map \<open>map_of\<close>; each operation refines the matching map
  operation.
\<close>

type_synonym RequestHash = "(local_id \<times> request_ref) list"

definition reqs_insert :: "local_id \<Rightarrow> request_ref \<Rightarrow> RequestHash \<Rightarrow> RequestHash" where
  "reqs_insert i r h = AList.update i r h"

definition reqs_take :: "local_id \<Rightarrow> RequestHash \<Rightarrow> request_ref option \<times> RequestHash" where
  "reqs_take i h = (map_of h i, AList.delete i h)"

definition reqs_live :: "qint64 \<Rightarrow> RequestHash \<Rightarrow> RequestHash" where
  "reqs_live now h = filter (\<lambda>(i, r). valid_RequestRef now r) h"

definition reqs_expired :: "qint64 \<Rightarrow> RequestHash \<Rightarrow> RequestHash" where
  "reqs_expired now h = filter (\<lambda>(i, r). \<not> valid_RequestRef now r) h"

definition reqs_handler_destroyed :: "handler \<Rightarrow> RequestHash \<Rightarrow> RequestHash" where
  "reqs_handler_destroyed x h = map (\<lambda>(i, r). (i, handler_destroyed x r)) h"

text \<open>\<open>++lastId\<close> on the C \<open>int\<close> counter.\<close>

definition next_id :: "local_id \<Rightarrow> local_id" where
  "next_id l = l + 1"

section \<open>The table refines a partial map\<close>

lemma reqs_insert_map: "map_of (reqs_insert i r h) = (map_of h)(i \<mapsto> r)"
  by (simp add: reqs_insert_def update_conv')

lemma reqs_take_map: "map_of (snd (reqs_take i h)) = (map_of h)(i := None)"
  by (simp add: reqs_take_def delete_conv')

lemma reqs_live_map:
  "distinct (alist_keys h) \<Longrightarrow> map_of (reqs_live now h) i =
     (case map_of h i of None \<Rightarrow> None
      | Some r \<Rightarrow> if valid_RequestRef now r then Some r else None)"
  by (simp add: reqs_live_def map_of_filter_distinct split: option.split)

lemma reqs_expired_map:
  "distinct (alist_keys h) \<Longrightarrow> map_of (reqs_expired now h) i =
     (case map_of h i of None \<Rightarrow> None
      | Some r \<Rightarrow> if valid_RequestRef now r then None else Some r)"
  by (simp add: reqs_expired_def map_of_filter_distinct split: option.split)

lemma reqs_destroyed_map:
  "map_of (reqs_handler_destroyed x h) = map_option (handler_destroyed x) \<circ> map_of h"
  by (simp add: reqs_handler_destroyed_def map_of_map)

lemma keys_reqs_destroyed [simp]: "alist_keys (reqs_handler_destroyed x h) = alist_keys h"
  by (induction h) (auto simp: reqs_handler_destroyed_def)

lemma reqs_take_fst [simp]: "fst (reqs_take i h) = map_of h i"
  by (simp add: reqs_take_def)

section \<open>Every operation keeps the keys distinct\<close>

lemma distinct_reqs_insert [ddx_inv]:
  "distinct (alist_keys h) \<Longrightarrow> distinct (alist_keys (reqs_insert i r h))"
  by (simp add: reqs_insert_def distinct_update)

lemma distinct_reqs_take [ddx_inv]:
  "distinct (alist_keys h) \<Longrightarrow> distinct (alist_keys (snd (reqs_take i h)))"
  by (simp add: reqs_take_def distinct_delete)

lemma distinct_reqs_live [ddx_inv]:
  "distinct (alist_keys h) \<Longrightarrow> distinct (alist_keys (reqs_live now h))"
  by (simp add: reqs_live_def)

lemma distinct_reqs_destroyed [ddx_inv]:
  "distinct (alist_keys h) \<Longrightarrow> distinct (alist_keys (reqs_handler_destroyed x h))"
  by simp


section \<open>The id counter\<close>

text \<open>
  Below the largest C \<open>int\<close>, \<open>++lastId\<close> yields the next integer.
\<close>

lemma sint_next_id:
  assumes "sint l < 2 ^ 31 - 1"
  shows "sint (next_id l) = sint l + 1"
proof -
  have lo: "- (2 ^ 31) \<le> sint l" using sint_ge [of l] by simp
  have "sint (next_id l) = signed_take_bit 31 (sint l + 1)"
    by (simp add: next_id_def sint_word_add)
  also have "\<dots> = sint l + 1"
    using lo assms by (intro signed_take_bit_int_eq_self) simp_all
  finally show ?thesis .
qed



end
