(* ===== verification/Wire_Codec.thy ===== *)
theory Wire_Codec
  imports RemDev_Types
begin

text \<open>
  The DDX-RPC envelope (spec section 6; the bodies of \<open>RemDev::sendDocument\<close>,
  \<open>RemDev::prepareDocument\<close> and the classification step of \<open>RemDev::handleItem\<close>
  live in \<open>remdev.cpp\<close>, which is not among the sources, so this theory follows the
  spec). A \<open>message\<close> is one of the four envelopes; \<open>encode_message\<close> builds its
  JSON document, \<open>classify\<close> reads an inbound document back, through
  \<open>FindMember\<close> only, verifying error objects; \<open>decode_item\<close> adds the frame-size
  limit and the parse failure. The text layer (RapidJSON's writer and reader) is not
  modelled: a frame arrives as its length and RapidJSON's parse result.
\<close>

section \<open>Envelopes\<close>

datatype message =
    MsgRequest string jvalue "jvalue option" \<comment> \<open>method, id, params\<close>
  | MsgNotification string "jvalue option" \<comment> \<open>method, params\<close>
  | MsgResponse jvalue jvalue \<comment> \<open>id, result\<close>
  | MsgError jvalue jvalue \<comment> \<open>id (JNull if unknown), the error object\<close>

datatype decode_error = Oversized | Malformed | BadEnvelope | UnverifiedError

definition opt_member :: "string \<Rightarrow> jvalue option \<Rightarrow> (string \<times> jvalue) list" where
  "opt_member k v = (case v of None \<Rightarrow> [] | Some x \<Rightarrow> [(k, x)])"

definition error_object :: "int \<Rightarrow> string \<Rightarrow> jvalue option \<Rightarrow> jvalue" where
  "error_object c msg d =
     JObject ([(''code'', JInt c), (''message'', JString msg)] @ opt_member ''data'' d)"

fun encode_message :: "message \<Rightarrow> jvalue" where
  "encode_message (MsgRequest m i p) =
     JObject ([(''method'', JString m), (''id'', i)] @ opt_member ''params'' p)"
| "encode_message (MsgNotification m p) =
     JObject ((''method'', JString m) # opt_member ''params'' p)"
| "encode_message (MsgResponse i r) = JObject [(''id'', i), (''result'', r)]"
| "encode_message (MsgError i e) = JObject [(''id'', i), (''error'', e)]"

section \<open>Reading an inbound document\<close>

fun is_object :: "jvalue \<Rightarrow> bool" where
  "is_object (JObject _) = True"
| "is_object _ = False"

text \<open>
  A response's error is \<^emph>\<open>verified\<close> when its \<open>code\<close> is an integer and its
  \<open>message\<close> a string (the contract of \<open>RemDev::Response\<close>); anything else is a
  protocol error and never reaches a handler.
\<close>

definition is_verified_error :: "jvalue \<Rightarrow> bool" where
  "is_verified_error e =
     (case (FindMember e ''code'', FindMember e ''message'') of
        (Some (JInt c), Some (JString msg)) \<Rightarrow> True
      | _ \<Rightarrow> False)"

definition verify_error :: "jvalue \<Rightarrow> jvalue \<Rightarrow> decode_error + message" where
  "verify_error i e = (if is_verified_error e then Inr (MsgError i e) else Inl UnverifiedError)"

text \<open>
  A document with a \<open>method\<close> is a request when it has an \<open>id\<close> member and a
  notification otherwise (\<open>Request::isRequest\<close> tests the presence of the id);
  \<open>params\<close>, when present, must be an object. Without a \<open>method\<close>, it is a
  response: it needs an \<open>id\<close> and exactly one of \<open>result\<close> and \<open>error\<close>.
\<close>

definition classify :: "jvalue \<Rightarrow> decode_error + message" where
  "classify v =
     (if \<not> is_object v then Inl Malformed
      else case FindMember v ''method'' of
        Some (JString m) \<Rightarrow>
          (let p = FindMember v ''params'' in
           if p \<noteq> None \<and> \<not> is_object (the p) then Inl BadEnvelope
           else case FindMember v ''id'' of
             None \<Rightarrow> Inr (MsgNotification m p)
           | Some i \<Rightarrow> Inr (MsgRequest m i p))
      | Some _ \<Rightarrow> Inl BadEnvelope
      | None \<Rightarrow>
          (case FindMember v ''id'' of
             None \<Rightarrow> Inl BadEnvelope
           | Some i \<Rightarrow>
               (case (FindMember v ''result'', FindMember v ''error'') of
                  (Some r, None) \<Rightarrow> Inr (MsgResponse i r)
                | (None, Some e) \<Rightarrow> verify_error i e
                | _ \<Rightarrow> Inl BadEnvelope)))"

text \<open>
  One inbound frame: its length in bytes and RapidJSON's parse result. A frame over
  the configured maximum is rejected before it is parsed.
\<close>

definition decode_item :: "nat \<Rightarrow> nat \<Rightarrow> jvalue option \<Rightarrow> decode_error + message" where
  "decode_item maxSize len parsed =
     (if maxSize < len then Inl Oversized
      else case parsed of None \<Rightarrow> Inl Malformed | Some v \<Rightarrow> classify v)"

text \<open>The envelopes the sender may build: params, when given, are an object.\<close>

fun wf_message :: "message \<Rightarrow> bool" where
  "wf_message (MsgRequest m i p) = (p = None \<or> is_object (the p))"
| "wf_message (MsgNotification m p) = (p = None \<or> is_object (the p))"
| "wf_message (MsgResponse i r) = True"
| "wf_message (MsgError i e) = is_verified_error e"

section \<open>Properties of the envelope\<close>

lemma error_object_verified [simp]: "is_verified_error (error_object c msg d)"
  by (simp add: error_object_def is_verified_error_def)

text \<open>Reading back the document of an envelope the sender can build gives the envelope.\<close>

lemma classify_encode [simp]:
  "wf_message m \<Longrightarrow> classify (encode_message m) = Inr m"
  by (cases m) (auto simp: classify_def opt_member_def verify_error_def split: option.splits)

text \<open>Members repeating a key already present are never read (first key wins).\<close>

lemma classify_shadowed:
  assumes "set (alist_keys ms') \<subseteq> set (alist_keys ms)"
  shows "classify (JObject (ms @ ms')) = classify (JObject ms)"
proof -
  have FM: "FindMember (JObject (ms @ ms')) = FindMember (JObject ms)"
    using map_of_append_shadowed [OF assms] by (simp add: fun_eq_iff)
  show ?thesis unfolding classify_def FM by simp
qed

text \<open>An error envelope only comes from a document whose error member is verified.\<close>

lemma classify_error_verified:
  "classify v = Inr (MsgError i e) \<Longrightarrow> is_verified_error e \<and> FindMember v ''error'' = Some e"
  by (auto simp: classify_def verify_error_def Let_def
           split: if_splits option.splits jvalue.splits prod.splits)

lemma decode_item_verified:
  "decode_item n len v = Inr (MsgError i e) \<Longrightarrow> is_verified_error e"
  by (auto simp: decode_item_def dest: classify_error_verified split: if_splits option.splits)

end
