(* ===== verification/Connection.thy ===== *)
theory Connection
  imports Correlation Wire_Codec
begin

text \<open>
  One DDX-RPC connection, class \<open>RemDev\<close> of \<open>src/DDX-testgui/remdev.h\<close>. The
  record \<open>remdev\<close> holds the fields the header declares (\<open>cid\<close>, \<open>connectTime\<close>,
  \<open>inbound\<close>, \<open>regState\<close>, \<open>closed\<close>, \<open>reqs\<close>, \<open>lastId\<close>,
  \<open>registrationTimeoutTime\<close>, \<open>registered\<close>) and, as explicit state, what the
  connection's operations make observable: the frames handed to \<open>writeItem\<close>
  (\<open>wire\<close>), the queued invocations of response handlers (\<open>queued\<close>), the live
  inbound \<open>Request\<close> handles (\<open>inreqs\<close>) and those handed to the method-handler
  collaborator (\<open>dispatched\<close>), the \<open>deviceDisconnected\<close> signals
  (\<open>disconnects\<close>), whether \<open>terminate\<close> released the transport, and log lines.
  The bodies of the operations are in \<open>remdev.cpp\<close>, which is not among the
  sources: they follow the header's documentation and the spec (section 4.2). Each
  operation is a function on the state; \<open>conn_step\<close> runs one event of the
  connection's event loop.
\<close>

section \<open>State\<close>

record remdev =
  cid :: qbytes
  connectTime :: qint64
  inbound :: bool
  regState :: "32 word"
  closed :: bool
  reqs :: RequestHash
  lastId :: local_id
  registrationTimeoutTime :: qint64
  registered :: bool
  maxItemSize :: nat
  inreqs :: "(nat \<times> request) list"
  nextHandle :: nat
  wire :: "message list"
  queued :: "(handler \<times> string \<times> response) list"
  dispatched :: "(nat \<times> request) list"
  disconnects :: "(disconnect_reason \<times> bool) list"
  terminated :: bool
  logs :: "string list"

datatype remdev_error = StaleRequest

text \<open>
  \<open>RemDev::RemDev\<close> and \<open>RemDev::init\<close>: a fresh connection, its registration
  deadline the configured registration timeout after the connect time.
\<close>

definition init_RemDev :: "qbytes \<Rightarrow> bool \<Rightarrow> nat \<Rightarrow> qint64 \<Rightarrow> qint64 \<Rightarrow> remdev" where
  "init_RemDev name isInbound maxSize regTimeout now =
     \<lparr>cid = name, connectTime = now, inbound = isInbound, regState = UnregisteredState,
      closed = False, reqs = [], lastId = 0, registrationTimeoutTime = now + regTimeout,
      registered = False, maxItemSize = maxSize, inreqs = [], nextHandle = 0, wire = [],
      queued = [], dispatched = [], disconnects = [], terminated = False, logs = []\<rparr>"

section \<open>Helpers\<close>

text \<open>\<open>RemDev::sendDocument\<close>: serialise and hand the frame to \<open>writeItem\<close>.\<close>

definition sendDocument :: "message \<Rightarrow> remdev \<Rightarrow> remdev" where
  "sendDocument m s = s\<lparr>wire := wire s @ [m]\<rparr>"

text \<open>\<open>RemDev::valid\<close>: a connection is usable once registered.\<close>

definition valid_RemDev :: "remdev \<Rightarrow> bool" where
  "valid_RemDev s \<longleftrightarrow> registered s"

text \<open>\<open>RemDev::log\<close>: a log line tagged with the connection's \<open>cid\<close>.\<close>

definition log :: "string \<Rightarrow> remdev \<Rightarrow> remdev" where
  "log msg s = s\<lparr>logs := logs s @ [cid s @ '': '' @ msg]\<rparr>"

definition error_response :: "local_id \<Rightarrow> request_ref \<Rightarrow> int \<Rightarrow> string \<Rightarrow> response" where
  "error_response i r code msg =
     \<lparr>successful = False, resp_id = i, resp_method = rr_method r,
      mainVal = error_object code msg None\<rparr>"

text \<open>
  \<open>RemDev::simulateError\<close>: queue a locally built error response to the request's
  handler; a handler that no longer exists (null \<open>QPointer\<close>) gets nothing.
\<close>

definition simulateError :: "local_id \<Rightarrow> request_ref \<Rightarrow> int \<Rightarrow> string \<Rightarrow> remdev \<Rightarrow> remdev" where
  "simulateError i r code msg s =
     (case handlerObj r of
        None \<Rightarrow> s
      | Some h \<Rightarrow> s\<lparr>queued := queued s @ [(h, handlerFn r, error_response i r code msg)]\<rparr>)"

definition simulateErrors :: "RequestHash \<Rightarrow> int \<Rightarrow> string \<Rightarrow> remdev \<Rightarrow> remdev" where
  "simulateErrors h code msg s = fold (\<lambda>(i, r). simulateError i r code msg) h s"

definition set_reg_flag :: "32 word \<Rightarrow> remdev \<Rightarrow> remdev" where
  "set_reg_flag f s =
     (let st = regState s OR f in s\<lparr>regState := st, registered := (st = RegisteredState)\<rparr>)"

section \<open>Closing\<close>

text \<open>
  \<open>RemDev::close\<close>: a no-op on a closed connection; otherwise it stops all sends,
  answers every pending request with a timeout-style error, releases the transport
  (\<open>terminate\<close>) and emits \<open>deviceDisconnected\<close> once.
\<close>

definition close :: "disconnect_reason \<Rightarrow> bool \<Rightarrow> remdev \<Rightarrow> remdev" where
  "close reason fromRemote s =
     (if closed s then s
      else let s1 = simulateErrors (reqs s) (error_code E_REQUEST_TIMEOUT)
                      (error_message E_REQUEST_TIMEOUT) (s\<lparr>closed := True, reqs := []\<rparr>)
           in s1\<lparr>terminated := True, disconnects := disconnects s1 @ [(reason, fromRemote)]\<rparr>)"

section \<open>Sending\<close>

text \<open>
  \<open>RemDev::sendRequest\<close>: \<open>-1\<close> and nothing sent on a closed connection;
  otherwise the next id, a \<open>RequestRef\<close> in the table, and the request frame.
\<close>

definition sendRequest ::
  "handler option \<Rightarrow> string \<Rightarrow> string \<Rightarrow> jvalue option \<Rightarrow> qint64 \<Rightarrow> qint64 \<Rightarrow> remdev
   \<Rightarrow> local_id \<times> remdev" where
  "sendRequest self fn m params timeout now s =
     (if closed s then (- 1, s)
      else let i = next_id (lastId s)
           in (i, sendDocument (MsgRequest m (JInt (sint i)) params)
                    (s\<lparr>lastId := i,
                       reqs := reqs_insert i (RequestRef self fn m timeout now) (reqs s)\<rparr>)))"

text \<open>Our own registration assertion: a \<open>register\<close> request, then \<open>RegSentFlag\<close>.\<close>

definition sendRegistration ::
  "handler \<Rightarrow> jvalue option \<Rightarrow> qint64 \<Rightarrow> qint64 \<Rightarrow> remdev \<Rightarrow> local_id \<times> remdev" where
  "sendRegistration self params timeout now s =
     (if closed s then (- 1, s)
      else let (i, s1) = sendRequest (Some self) ''registrationResponse'' ''register'' params
                           timeout now s
           in (i, set_reg_flag RegSentFlag s1))"

text \<open>
  The \<open>Request*\<close> overloads of \<open>sendResponse\<close> and \<open>sendError\<close> consume the
  handle; a notification's handle is released without any frame. A handle that was
  already answered is no longer live: answering it again is the error
  \<open>StaleRequest\<close> (a use after \<open>delete\<close> in the C++).
\<close>

definition take_request :: "nat \<Rightarrow> remdev \<Rightarrow> remdev_error + request \<times> remdev" where
  "take_request hn s =
     (case map_of (inreqs s) hn of
        None \<Rightarrow> Inl StaleRequest
      | Some rq \<Rightarrow> Inr (rq, s\<lparr>inreqs := AList.delete hn (inreqs s)\<rparr>))"

definition sendResponse :: "nat \<Rightarrow> jvalue option \<Rightarrow> remdev \<Rightarrow> remdev_error + remdev" where
  "sendResponse hn result s =
     (case take_request hn s of
        Inl e \<Rightarrow> Inl e
      | Inr (rq, s1) \<Rightarrow> Inr
          (case req_id rq of
             None \<Rightarrow> s1
           | Some i \<Rightarrow> if closed s1 then s1
                       else sendDocument (MsgResponse i (case result of None \<Rightarrow> JBool True
                                                          | Some v \<Rightarrow> v)) s1))"

definition sendError ::
  "nat \<Rightarrow> int \<Rightarrow> string \<Rightarrow> jvalue option \<Rightarrow> remdev \<Rightarrow> remdev_error + remdev" where
  "sendError hn code msg data s =
     (case take_request hn s of
        Inl e \<Rightarrow> Inl e
      | Inr (rq, s1) \<Rightarrow> Inr
          (case req_id rq of
             None \<Rightarrow> s1
           | Some i \<Rightarrow> if closed s1 then s1
                       else sendDocument (MsgError i (error_object code msg data)) s1))"

definition sendError_code :: "nat \<Rightarrow> std_error \<Rightarrow> remdev \<Rightarrow> remdev_error + remdev" where
  "sendError_code hn e s = sendError hn (error_code e) (error_message e) None s"

definition sendNotification :: "string \<Rightarrow> jvalue option \<Rightarrow> remdev \<Rightarrow> remdev" where
  "sendNotification m params s =
     (if closed s then s else sendDocument (MsgNotification m params) s)"

section \<open>Receiving\<close>

text \<open>A response id is ours only if it is an integer in the range of \<open>LocalId\<close>.\<close>

definition local_id_of :: "jvalue \<Rightarrow> local_id option" where
  "local_id_of v =
     (case v of
        JInt n \<Rightarrow> if - (2 ^ 31) \<le> n \<and> n < 2 ^ 31 then Some (word_of_int n) else None
      | _ \<Rightarrow> None)"

text \<open>
  A response or error: pop the matching entry and queue the response to its handler
  (dropped if the handler is gone); an id that matches no pending request is logged
  and discarded. A successful answer to our \<open>register\<close> request sets
  \<open>RemoteRegAcceptedFlag\<close>.
\<close>

definition handleResponse :: "bool \<Rightarrow> jvalue \<Rightarrow> jvalue \<Rightarrow> remdev \<Rightarrow> remdev" where
  "handleResponse ok idv mv s =
     (case local_id_of idv of
        None \<Rightarrow> log ''Response with an id that is not ours'' s
      | Some i \<Rightarrow>
          (case reqs_take i (reqs s) of
             (None, _) \<Rightarrow> log ''Response to no pending request'' s
           | (Some r, rest) \<Rightarrow>
               (let s1 = s\<lparr>reqs := rest\<rparr>;
                    s2 = (if ok \<and> rr_method r = ''register''
                          then set_reg_flag RemoteRegAcceptedFlag s1 else s1)
                in case handlerObj r of
                     None \<Rightarrow> s2
                   | Some h \<Rightarrow> s2\<lparr>queued := queued s2 @
                        [(h, handlerFn r, \<lparr>successful = ok, resp_id = i,
                                           resp_method = rr_method r, mainVal = mv\<rparr>)]\<rparr>)))"

text \<open>\<open>RemDev::handleRegistration\<close>: accept the peer's registration and answer it.\<close>

definition handleRegistration :: "jvalue option \<Rightarrow> remdev \<Rightarrow> remdev" where
  "handleRegistration i s =
     (let s1 = set_reg_flag RegAcceptedFlag s
      in case i of None \<Rightarrow> s1 | Some v \<Rightarrow> sendDocument (MsgResponse v (JBool True)) s1)"

text \<open>\<open>RemDev::handleDisconnect\<close>: the peer announces that it closes.\<close>

definition handleDisconnect :: "remdev \<Rightarrow> remdev" where
  "handleDisconnect s = close ConnectionTerminated True s"

text \<open>
  A request or notification: registration and disconnection are handled here; any
  other method before registration is a protocol violation that closes the
  connection; after registration the request is handed on with a fresh handle.
\<close>

definition dispatch_request :: "string \<Rightarrow> jvalue option \<Rightarrow> jvalue option \<Rightarrow> remdev \<Rightarrow> remdev" where
  "dispatch_request m i p s =
     (let rq = \<lparr>req_method = m, req_params = p, req_id = i\<rparr>; hn = nextHandle s
      in s\<lparr>inreqs := AList.update hn rq (inreqs s), nextHandle := Suc hn,
           dispatched := dispatched s @ [(hn, rq)]\<rparr>)"

definition handleCall :: "string \<Rightarrow> jvalue option \<Rightarrow> jvalue option \<Rightarrow> remdev \<Rightarrow> remdev" where
  "handleCall m i p s =
     (if m = ''register'' then handleRegistration i s
      else if m = ''disconnect'' then handleDisconnect s
      else if \<not> registered s then close ConnectionTerminated False s
      else dispatch_request m i p s)"

text \<open>
  \<open>RemDev::handleItem\<close>: one complete inbound frame. Nothing is processed on a
  closed connection; an oversized frame closes with \<open>BufferOverflow\<close> and any other
  protocol error with \<open>ConnectionTerminated\<close>.
\<close>

definition handleItem :: "nat \<Rightarrow> jvalue option \<Rightarrow> remdev \<Rightarrow> remdev" where
  "handleItem len parsed s =
     (if closed s then s
      else case decode_item (maxItemSize s) len parsed of
        Inl Oversized \<Rightarrow> close BufferOverflow False s
      | Inl _ \<Rightarrow> close ConnectionTerminated False s
      | Inr (MsgRequest m i p) \<Rightarrow> handleCall m (Some i) p s
      | Inr (MsgNotification m p) \<Rightarrow> handleCall m None p s
      | Inr (MsgResponse i r) \<Rightarrow> handleResponse True i r s
      | Inr (MsgError i e) \<Rightarrow> handleResponse False i e s)"

section \<open>Timeouts\<close>

text \<open>
  \<open>RemDev::timeoutPoll\<close>: every entry that is no longer valid at \<open>now\<close> is
  removed and answered with a "request timed out" error; then an unregistered
  connection past its registration deadline is closed.
\<close>

definition timeoutPoll :: "qint64 \<Rightarrow> remdev \<Rightarrow> remdev" where
  "timeoutPoll now s =
     (if closed s then s
      else let s1 = simulateErrors (reqs_expired now (reqs s)) (error_code E_REQUEST_TIMEOUT)
                      (error_message E_REQUEST_TIMEOUT) (s\<lparr>reqs := reqs_live now (reqs s)\<rparr>)
           in if \<not> registered s1 \<and> registrationTimeoutTime s1 <s now
              then close RegistrationTimeout False s1 else s1)"

definition handlerDestroyed :: "handler \<Rightarrow> remdev \<Rightarrow> remdev" where
  "handlerDestroyed x s = s\<lparr>reqs := reqs_handler_destroyed x (reqs s)\<rparr>"

section \<open>The connection's event loop\<close>

datatype conn_event =
    SendRequest "handler option" string string "jvalue option" qint64
  | SendRegistration handler "jvalue option" qint64
  | SendResponse nat "jvalue option"
  | SendError nat int string "jvalue option"
  | SendNotification string "jvalue option"
  | Item nat "jvalue option"
  | TimeoutPoll
  | Close disconnect_reason bool
  | HandlerDestroyed handler

fun conn_step :: "qint64 \<Rightarrow> conn_event \<Rightarrow> remdev \<Rightarrow> remdev" where
  "conn_step now (SendRequest obj fn m p t) s = snd (sendRequest obj fn m p t now s)"
| "conn_step now (SendRegistration obj p t) s = snd (sendRegistration obj p t now s)"
| "conn_step now (SendResponse hn r) s = (case sendResponse hn r s of Inl _ \<Rightarrow> s | Inr s' \<Rightarrow> s')"
| "conn_step now (SendError hn c msg d) s =
     (case sendError hn c msg d s of Inl _ \<Rightarrow> s | Inr s' \<Rightarrow> s')"
| "conn_step now (SendNotification m p) s = sendNotification m p s"
| "conn_step now (Item len v) s = handleItem len v s"
| "conn_step now TimeoutPoll s = timeoutPoll now s"
| "conn_step now (Close r fr) s = close r fr s"
| "conn_step now (HandlerDestroyed x) s = handlerDestroyed x s"

fun conn_run :: "(qint64 \<times> conn_event) list \<Rightarrow> remdev \<Rightarrow> remdev" where
  "conn_run [] s = s"
| "conn_run ((now, e) # es) s = conn_run es (conn_step now e s)"

inductive conn_reachable :: "remdev \<Rightarrow> bool" where
  init: "conn_reachable (init_RemDev name isInbound maxSize regTimeout now)"
| step: "conn_reachable s \<Longrightarrow> conn_reachable (conn_step now e s)"

section \<open>Analysis functions\<close>

text \<open>The responses that answering the entries of a table with an error queues.\<close>

definition error_deliveries ::
  "RequestHash \<Rightarrow> int \<Rightarrow> string \<Rightarrow> (handler \<times> string \<times> response) list" where
  "error_deliveries h code msg =
     concat (map (\<lambda>(i, r). case handlerObj r of None \<Rightarrow> []
                          | Some x \<Rightarrow> [(x, handlerFn r, error_response i r code msg)]) h)"

text \<open>The ids returned by a sequence of \<open>sendRequest\<close> calls, and the final state.\<close>

fun sendRequests ::
  "(handler option \<times> string \<times> string \<times> jvalue option \<times> qint64 \<times> qint64) list \<Rightarrow> remdev
   \<Rightarrow> local_id list \<times> remdev" where
  "sendRequests [] s = ([], s)"
| "sendRequests ((obj, fn, m, p, t, now) # cs) s =
     (let (i, s1) = sendRequest obj fn m p t now s; (is, s2) = sendRequests cs s1 in (i # is, s2))"

section \<open>Invariant\<close>

text \<open>
  What every reachable connection keeps true: the correlation table and the handle
  table have distinct keys, handles are below the handle counter, a closed connection
  has no pending request and has released its transport, exactly one disconnect
  signal has been emitted iff the connection is closed, and \<open>registered\<close> is the
  union of the three registration flags, which are the only bits of \<open>regState\<close>.
\<close>

definition conn_inv :: "remdev \<Rightarrow> bool" where
  "conn_inv s \<longleftrightarrow>
     distinct (alist_keys (reqs s)) \<and>
     distinct (alist_keys (inreqs s)) \<and>
     list_all (\<lambda>hn. hn < nextHandle s) (alist_keys (inreqs s)) \<and>
     (closed s \<longrightarrow> reqs s = []) \<and>
     terminated s = closed s \<and>
     length (disconnects s) = (if closed s then 1 else 0) \<and>
     registered s = (regState s = RegisteredState) \<and>
     regState s AND NOT RegisteredState = 0"

text \<open>
  Every response queued to a handler is either successful or carries a verified error
  object (the contract of \<open>RemDev::Response\<close>).
\<close>

definition responses_verified :: "remdev \<Rightarrow> bool" where
  "responses_verified s \<longleftrightarrow>
     list_all (\<lambda>(x, fn, r). successful r \<or> is_verified_error (mainVal r)) (queued s)"

section \<open>Helper lemmas and preservation of the invariant\<close>

lemma simulateErrors_eq:
  "simulateErrors h code msg s = s\<lparr>queued := queued s @ error_deliveries h code msg\<rparr>"
proof (induction h arbitrary: s)
  case Nil
  then show ?case by (simp add: simulateErrors_def error_deliveries_def)
next
  case (Cons p h)
  obtain i r where p: "p = (i, r)" by (cases p)
  show ?case
    using Cons.IH [of "simulateError i r code msg s"]
    by (simp add: p simulateErrors_def error_deliveries_def simulateError_def split: option.split)
qed

lemma RegisteredState_7: "RegisteredState = 7"
  by (simp add: reg_flag_defs)

lemma reg_flags_in_mask:
  "RegSentFlag AND NOT RegisteredState = 0"
  "RegAcceptedFlag AND NOT RegisteredState = 0"
  "RemoteRegAcceptedFlag AND NOT RegisteredState = 0"
  by (simp_all add: reg_flag_defs)

lemma conn_inv_set_reg_flag [ddx_inv]:
  assumes "conn_inv s" and "f AND NOT RegisteredState = 0"
  shows "conn_inv (set_reg_flag f s)"
proof -
  have "(regState s OR f) AND NOT RegisteredState = 0"
    using assms by (simp add: conn_inv_def bit.conj_disj_distrib2)
  with assms(1) show ?thesis by (simp add: conn_inv_def set_reg_flag_def Let_def)
qed

lemma closed_close [simp]: "closed (close r b s)"
  by (simp add: close_def simulateErrors_eq Let_def)

lemma conn_inv_close [ddx_inv]: "conn_inv s \<Longrightarrow> conn_inv (close r b s)"
  by (auto simp: conn_inv_def close_def simulateErrors_eq Let_def)

lemma conn_inv_sendDocument [simp]: "conn_inv (sendDocument m s) = conn_inv s"
  by (simp add: conn_inv_def sendDocument_def)

lemma conn_inv_log [simp]: "conn_inv (log m s) = conn_inv s"
  by (simp add: conn_inv_def log_def)

lemma conn_inv_sendRequest [ddx_inv]: "conn_inv s \<Longrightarrow> conn_inv (snd (sendRequest obj fn m p t now s))"
  by (auto simp: conn_inv_def sendRequest_def sendDocument_def Let_def distinct_reqs_insert)

lemma conn_inv_sendRegistration [ddx_inv]:
  "conn_inv s \<Longrightarrow> conn_inv (snd (sendRegistration obj p t now s))"
  using conn_inv_sendRequest [of s "Some obj"]
  by (simp add: sendRegistration_def case_prod_beta conn_inv_set_reg_flag reg_flags_in_mask)

lemma list_all_keys_delete:
  "list_all P (alist_keys al) \<Longrightarrow> list_all P (alist_keys (AList.delete k al))"
  by (auto simp: delete_keys list_all_iff)

lemma conn_inv_take_request:
  "conn_inv s \<Longrightarrow> take_request hn s = Inr (rq, s') \<Longrightarrow> conn_inv s'"
  by (auto simp: take_request_def conn_inv_def distinct_delete list_all_keys_delete split: option.splits)

lemma take_request_closed:
  "take_request hn s = Inr (rq, s') \<Longrightarrow> closed s' = closed s"
  by (auto simp: take_request_def split: option.splits)

lemma conn_inv_sendResponse [ddx_inv]:
  "conn_inv s \<Longrightarrow> sendResponse hn r s = Inr s' \<Longrightarrow> conn_inv s'"
  by (auto simp: sendResponse_def dest: conn_inv_take_request split: sum.splits option.splits if_splits)

lemma conn_inv_sendError [ddx_inv]:
  "conn_inv s \<Longrightarrow> sendError hn c m d s = Inr s' \<Longrightarrow> conn_inv s'"
  by (auto simp: sendError_def dest: conn_inv_take_request split: sum.splits option.splits if_splits)

lemma conn_inv_sendNotification [ddx_inv]: "conn_inv s \<Longrightarrow> conn_inv (sendNotification m p s)"
  by (simp add: sendNotification_def)

lemma conn_inv_dispatch [ddx_inv]: "conn_inv s \<Longrightarrow> conn_inv (dispatch_request m i p s)"
  by (auto simp: conn_inv_def dispatch_request_def Let_def distinct_update update_keys list_all_iff)

lemma conn_inv_handleRegistration [ddx_inv]: "conn_inv s \<Longrightarrow> conn_inv (handleRegistration i s)"
  by (auto simp: handleRegistration_def Let_def intro!: conn_inv_set_reg_flag reg_flags_in_mask split: option.split)

lemma conn_inv_handleCall [ddx_inv]: "conn_inv s \<Longrightarrow> conn_inv (handleCall m i p s)"
  by (simp add: handleCall_def handleDisconnect_def conn_inv_handleRegistration conn_inv_close conn_inv_dispatch)

lemma conn_inv_handleResponse [ddx_inv]:
  assumes inv: "conn_inv s"
  shows "conn_inv (handleResponse ok iv v s)"
proof (cases "local_id_of iv")
  case None
  then show ?thesis using inv by (simp add: handleResponse_def)
next
  case (Some i)
  show ?thesis
  proof (cases "map_of (reqs s) i")
    case None
    with \<open>local_id_of iv = Some i\<close> inv show ?thesis
      by (simp add: handleResponse_def reqs_take_def)
  next
    case (Some r)
    let ?s1 = "s\<lparr>reqs := AList.delete i (reqs s)\<rparr>"
    define s2 where "s2 = (if ok \<and> rr_method r = ''register''
                           then set_reg_flag RemoteRegAcceptedFlag ?s1 else ?s1)"
    have "conn_inv ?s1" using inv by (simp add: conn_inv_def distinct_delete)
    then have i2: "conn_inv s2" by (simp add: s2_def conn_inv_set_reg_flag reg_flags_in_mask)
    then have q: "conn_inv (s2\<lparr>queued := q\<rparr>)" for q by (simp add: conn_inv_def)
    have "handleResponse ok iv v s =
            (case handlerObj r of None \<Rightarrow> s2
             | Some h \<Rightarrow> s2\<lparr>queued := queued s2 @
                  [(h, handlerFn r, \<lparr>successful = ok, resp_id = i,
                                     resp_method = rr_method r, mainVal = v\<rparr>)]\<rparr>)"
      using \<open>local_id_of iv = Some i\<close> Some unfolding s2_def
      by (simp add: handleResponse_def reqs_take_def Let_def)
    with i2 q show ?thesis by (simp split: option.split)
  qed
qed


lemma conn_inv_handleItem [ddx_inv]:
  assumes inv: "conn_inv s"
  shows "conn_inv (handleItem len v s)"
proof (cases "decode_item (maxItemSize s) len v")
  case (Inl e)
  with inv show ?thesis
    by (cases e) (simp_all add: handleItem_def conn_inv_close)
next
  case (Inr m)
  with inv show ?thesis
    by (cases m) (simp_all add: handleItem_def conn_inv_handleCall conn_inv_handleResponse)
qed

lemma conn_inv_timeoutPoll [ddx_inv]: "conn_inv s \<Longrightarrow> conn_inv (timeoutPoll now s)"
proof -
  assume inv: "conn_inv s"
  let ?s1 = "simulateErrors (reqs_expired now (reqs s)) (error_code E_REQUEST_TIMEOUT)
               (error_message E_REQUEST_TIMEOUT) (s\<lparr>reqs := reqs_live now (reqs s)\<rparr>)"
  have "conn_inv ?s1"
    using inv by (auto simp: conn_inv_def simulateErrors_eq distinct_reqs_live reqs_live_def)
  then show ?thesis by (simp add: timeoutPoll_def Let_def conn_inv_close inv)
qed

lemma conn_inv_handlerDestroyed [ddx_inv]: "conn_inv s \<Longrightarrow> conn_inv (handlerDestroyed x s)"
proof -
  have "reqs_handler_destroyed x [] = []" by (simp add: reqs_handler_destroyed_def)
  moreover assume "conn_inv s"
  ultimately show ?thesis by (simp add: conn_inv_def handlerDestroyed_def)
qed

lemma conn_inv_step [ddx_inv]:
  assumes inv: "conn_inv s"
  shows "conn_inv (conn_step now e s)"
proof (cases e)
  case (SendResponse hn r)
  then show ?thesis
    using inv conn_inv_sendResponse [OF inv, of hn r] by (simp split: sum.split)
next
  case (SendError hn c m d)
  then show ?thesis
    using inv conn_inv_sendError [OF inv, of hn c m d] by (simp split: sum.split)
qed (simp_all add: inv conn_inv_sendRequest conn_inv_sendRegistration conn_inv_sendNotification
       conn_inv_handleItem conn_inv_timeoutPoll conn_inv_close conn_inv_handlerDestroyed)

lemma conn_inv_init: "conn_inv (init_RemDev name b maxSize rt now)"
  by (simp add: conn_inv_def init_RemDev_def reg_flag_defs)

lemma conn_reachable_inv: "conn_reachable s \<Longrightarrow> conn_inv s"
  by (induction rule: conn_reachable.induct) (simp_all add: conn_inv_init conn_inv_step)

lemma conn_inv_run: "conn_inv s \<Longrightarrow> conn_inv (conn_run es s)"
  by (induction es arbitrary: s) (auto simp: conn_inv_step)

section \<open>Lemmas about single operations\<close>

lemma filter_key_distinct:
  "distinct (alist_keys h) \<Longrightarrow> map_of h i = Some r \<Longrightarrow> filter (\<lambda>(k, v). k = i) h = [(i, r)]"
proof (induction h)
  case Nil
  then show ?case by simp
next
  case (Cons p h)
  obtain k v where p: "p = (k, v)" by (cases p)
  show ?case
  proof (cases "k = i")
    case True
    with Cons.prems p have "filter (\<lambda>(k, v). k = i) h = []"
      by (force simp: filter_empty_conv)
    with True Cons.prems p show ?thesis by simp
  next
    case False
    with Cons p show ?thesis by simp
  qed
qed

lemma error_deliveries_filter_id:
  "filter (\<lambda>d. resp_id (snd (snd d)) = i) (error_deliveries h c m) =
     error_deliveries (filter (\<lambda>(k, v). k = i) h) c m"
  by (induction h) (auto simp: error_deliveries_def error_response_def split: option.split)

lemma local_id_of_sint [simp]: "local_id_of (JInt (sint i)) = Some i"
proof -
  have "- (2 ^ 31) \<le> sint i" and "sint i < 2 ^ 31"
    using sint_ge [of i] sint_lt [of i] by simp_all
  then show ?thesis by (simp add: local_id_of_def)
qed

lemma closed_step:
  assumes "closed s" and "reqs s = []"
  shows "wire (conn_step now e s) = wire s \<and> queued (conn_step now e s) = queued s \<and>
         disconnects (conn_step now e s) = disconnects s \<and> closed (conn_step now e s) \<and>
         reqs (conn_step now e s) = []"
proof (cases e)
  case (SendResponse hn r)
  with assms show ?thesis
    by (auto simp: sendResponse_def take_request_def split: option.splits sum.splits)
next
  case (SendError hn c m d)
  with assms show ?thesis
    by (auto simp: sendError_def take_request_def split: option.splits sum.splits)
next
  case (HandlerDestroyed x)
  with assms show ?thesis
    by (simp add: handlerDestroyed_def reqs_handler_destroyed_def)
qed (use assms in \<open>simp_all add: sendRequest_def sendRegistration_def sendNotification_def
                    handleItem_def timeoutPoll_def close_def\<close>)

lemma simulateErrors_fields [simp]:
  "closed (simulateErrors h c m s) = closed s" "registered (simulateErrors h c m s) = registered s"
  "registrationTimeoutTime (simulateErrors h c m s) = registrationTimeoutTime s"
  "disconnects (simulateErrors h c m s) = disconnects s" "reqs (simulateErrors h c m s) = reqs s"
  "wire (simulateErrors h c m s) = wire s"
  by (simp_all add: simulateErrors_eq)

lemma set_reg_flag_fields [simp]:
  "queued (set_reg_flag f s) = queued s" "reqs (set_reg_flag f s) = reqs s"
  "closed (set_reg_flag f s) = closed s" "wire (set_reg_flag f s) = wire s"
  "disconnects (set_reg_flag f s) = disconnects s" "inreqs (set_reg_flag f s) = inreqs s"
  by (simp_all add: set_reg_flag_def Let_def)

lemma regState_fold:
  "regState (fold set_reg_flag fs s) = regState s OR foldr (OR) fs 0 \<and>
   registered (fold set_reg_flag fs s) =
     (if fs = [] then registered s else regState s OR foldr (OR) fs 0 = RegisteredState)"
  by (induction fs arbitrary: s) (auto simp: set_reg_flag_def Let_def ac_simps)

lemma or_reg_flags:
  "set fs \<subseteq> {RegSentFlag, RegAcceptedFlag, RemoteRegAcceptedFlag} \<Longrightarrow>
   foldr (OR) fs 0 = (if RegSentFlag \<in> set fs then 1 else 0) OR (if RegAcceptedFlag \<in> set fs then 2 else 0)
                      OR (if RemoteRegAcceptedFlag \<in> set fs then 4 else 0)"
proof (induction fs)
  case Nil
  then show ?case by simp
next
  case (Cons f fs)
  then have f: "f = 1 \<or> f = 2 \<or> f = 4" and IH: "foldr (OR) fs 0 =
      (if RegSentFlag \<in> set fs then 1 else 0) OR (if RegAcceptedFlag \<in> set fs then 2 else 0)
      OR (if RemoteRegAcceptedFlag \<in> set fs then 4 else 0)"
    by (auto simp: reg_flag_defs)
  from f show ?case
    by (elim disjE) (simp_all add: IH reg_flag_defs)
qed

lemma close_wire [simp]: "wire (close r fr d) = wire d"
  by (simp add: close_def Let_def simulateErrors_eq)

lemma close_terminated [simp]: "terminated (close r fr d) \<longleftrightarrow> \<not> closed d \<or> terminated d"
  by (simp add: close_def Let_def simulateErrors_eq)

lemma close_disconnects:
  "disconnects (close r fr d) = disconnects d @ (if closed d then [] else [(r, fr)])"
  by (simp add: close_def Let_def simulateErrors_eq)

section \<open>Verified error responses\<close>

lemma responses_verified_append:
  "responses_verified (s\<lparr>queued := queued s @ ds\<rparr>) \<longleftrightarrow>
     responses_verified s \<and> list_all (\<lambda>(x, fn, r). successful r \<or> is_verified_error (mainVal r)) ds"
  by (simp add: responses_verified_def)

lemma error_deliveries_verified:
  "list_all (\<lambda>(x, fn, r). successful r \<or> is_verified_error (mainVal r)) (error_deliveries h c m)"
  by (induction h) (auto simp: error_deliveries_def error_response_def split: option.split)

lemma responses_verified_simulateErrors [ddx_inv]:
  "responses_verified s \<Longrightarrow> responses_verified (simulateErrors h c m s)"
  by (simp add: simulateErrors_eq responses_verified_append error_deliveries_verified)

lemma responses_verified_close [ddx_inv]:
  "responses_verified s \<Longrightarrow> responses_verified (close r b s)"
  by (auto simp: close_def Let_def simulateErrors_eq responses_verified_def error_deliveries_verified)

lemma responses_verified_set_reg_flag [simp]:
  "responses_verified (set_reg_flag f s) = responses_verified s"
  by (simp add: responses_verified_def set_reg_flag_def Let_def)

lemma responses_verified_sendDocument [simp]:
  "responses_verified (sendDocument m s) = responses_verified s"
  by (simp add: responses_verified_def sendDocument_def)

lemma responses_verified_dispatch [simp]:
  "responses_verified (dispatch_request m i p s) = responses_verified s"
  by (simp add: responses_verified_def dispatch_request_def Let_def)

lemma responses_verified_handleCall [ddx_inv]:
  "responses_verified s \<Longrightarrow> responses_verified (handleCall m i p s)"
  by (simp add: handleCall_def handleDisconnect_def handleRegistration_def
                responses_verified_close Let_def split: option.split)

lemma responses_verified_handleResponse [ddx_inv]:
  "responses_verified s \<Longrightarrow> ok \<or> is_verified_error v \<Longrightarrow> responses_verified (handleResponse ok iv v s)"
  by (auto simp: handleResponse_def reqs_take_def Let_def log_def responses_verified_def
           split: option.split)

lemma responses_verified_handleItem [ddx_inv]:
  assumes rv: "responses_verified s"
  shows "responses_verified (handleItem len v s)"
proof (cases "decode_item (maxItemSize s) len v")
  case (Inl e)
  with rv show ?thesis by (cases e) (simp_all add: handleItem_def responses_verified_close)
next
  case (Inr m)
  show ?thesis
  proof (cases m)
    case (MsgError i e)
    with Inr have "is_verified_error e" by (simp add: decode_item_verified)
    with Inr MsgError rv show ?thesis
      by (simp add: handleItem_def responses_verified_handleResponse)
  qed (use Inr rv in \<open>simp_all add: handleItem_def responses_verified_handleCall
         responses_verified_handleResponse\<close>)
qed

lemma responses_verified_step [ddx_inv]:
  assumes rv: "responses_verified s"
  shows "responses_verified (conn_step now e s)"
proof (cases e)
  case (SendResponse hn r)
  with rv show ?thesis
    by (auto simp: sendResponse_def take_request_def sendDocument_def responses_verified_def
             split: option.splits sum.splits)
next
  case (SendError hn c m d)
  with rv show ?thesis
    by (auto simp: sendError_def take_request_def sendDocument_def responses_verified_def
             split: option.splits sum.splits)
next
  case TimeoutPoll
  have "responses_verified (s\<lparr>reqs := reqs_live now (reqs s)\<rparr>)"
    using rv by (simp add: responses_verified_def)
  then have "responses_verified (simulateErrors (reqs_expired now (reqs s)) c m
                                  (s\<lparr>reqs := reqs_live now (reqs s)\<rparr>))" for c m
    by (rule responses_verified_simulateErrors)
  with TimeoutPoll rv show ?thesis
    by (simp add: timeoutPoll_def Let_def responses_verified_close)
next
  case (Item len v)
  with rv show ?thesis by (simp add: responses_verified_handleItem)
next
  case (Close r b)
  with rv show ?thesis by (simp add: responses_verified_close)
qed (use rv in \<open>simp_all add: sendRequest_def sendRegistration_def sendNotification_def
       sendDocument_def handlerDestroyed_def responses_verified_def Let_def case_prod_beta\<close>)


section \<open>Answering expired requests\<close>

text \<open>
  One \<open>timeoutPoll\<close> at a time at which a pending request is no longer valid removes it
  and queues, for its id, exactly the error deliveries of that single entry.
\<close>

lemma timeoutPoll_answers:
  assumes inv: "conn_inv s" and opn: "\<not> closed s"
    and pend: "map_of (reqs s) i = Some r" and exp: "\<not> valid_RequestRef now r"
  shows "map_of (reqs (timeoutPoll now s)) i = None \<and>
         filter (\<lambda>d. resp_id (snd (snd d)) = i)
                (drop (length (queued s)) (queued (timeoutPoll now s))) =
           error_deliveries [(i, r)] (error_code E_REQUEST_TIMEOUT) (error_message E_REQUEST_TIMEOUT)"
proof -
  have dist: "distinct (alist_keys (reqs s))" using inv by (simp add: conn_inv_def)
  have one: "filter (\<lambda>(k, v). k = i) (reqs s) = [(i, r)]"
    using dist pend by (rule filter_key_distinct)
  have "filter (\<lambda>(k, v). k = i) (reqs_expired now (reqs s)) =
          filter (\<lambda>(k, r). \<not> valid_RequestRef now r) (filter (\<lambda>(k, v). k = i) (reqs s))"
    by (simp add: reqs_expired_def filter_filter case_prod_unfold conj_commute)
  then have fe: "filter (\<lambda>(k, v). k = i) (reqs_expired now (reqs s)) = [(i, r)]"
    using one exp by simp
  have "filter (\<lambda>(k, v). k = i) (reqs_live now (reqs s)) =
          filter (\<lambda>(k, r). valid_RequestRef now r) (filter (\<lambda>(k, v). k = i) (reqs s))"
    by (simp add: reqs_live_def filter_filter case_prod_unfold conj_commute)
  then have fl: "filter (\<lambda>(k, v). k = i) (reqs_live now (reqs s)) = []"
    using one exp by simp
  have ml: "map_of (reqs_live now (reqs s)) i = None"
    using reqs_live_map [OF dist, of now i] pend exp by simp
  let ?c = "error_code E_REQUEST_TIMEOUT" and ?m = "error_message E_REQUEST_TIMEOUT"
  let ?s1 = "simulateErrors (reqs_expired now (reqs s)) ?c ?m (s\<lparr>reqs := reqs_live now (reqs s)\<rparr>)"
  have q1: "queued ?s1 = queued s @ error_deliveries (reqs_expired now (reqs s)) ?c ?m"
    by (simp add: simulateErrors_eq)
  have d1: "filter (\<lambda>d. resp_id (snd (snd d)) = i) (error_deliveries (reqs_expired now (reqs s)) ?c ?m)
              = error_deliveries [(i, r)] ?c ?m"
    unfolding error_deliveries_filter_id fe ..
  have d2: "filter (\<lambda>d. resp_id (snd (snd d)) = i) (error_deliveries (reqs_live now (reqs s)) ?c ?m) = []"
    unfolding error_deliveries_filter_id fl by (simp add: error_deliveries_def)
  show ?thesis
  proof (cases "\<not> registered ?s1 \<and> registrationTimeoutTime ?s1 <s now")
    case True
    then have "timeoutPoll now s = close RegistrationTimeout False ?s1"
      using opn by (simp add: timeoutPoll_def Let_def)
    moreover have "\<not> closed ?s1" using opn by simp
    ultimately show ?thesis
      using ml q1 d1 d2 by (simp add: close_def simulateErrors_eq Let_def)
  next
    case False
    then have "timeoutPoll now s = ?s1" unfolding timeoutPoll_def Let_def using opn by auto
    then show ?thesis using ml q1 d1 by (simp add: simulateErrors_eq)
  qed
qed

text \<open>On a registered connection a poll keeps a request that is still valid.\<close>

lemma timeoutPoll_keeps:
  assumes inv: "conn_inv s" and opn: "\<not> closed s" and reg: "registered s"
    and pend: "map_of (reqs s) i = Some r" and val: "valid_RequestRef now r"
  shows "map_of (reqs (timeoutPoll now s)) i = Some r \<and>
         filter (\<lambda>d. resp_id (snd (snd d)) = i)
                (drop (length (queued s)) (queued (timeoutPoll now s))) = []"
proof -
  have dist: "distinct (alist_keys (reqs s))" using inv by (simp add: conn_inv_def)
  have one: "filter (\<lambda>(k, v). k = i) (reqs s) = [(i, r)]"
    using dist pend by (rule filter_key_distinct)
  have "filter (\<lambda>(k, v). k = i) (reqs_expired now (reqs s)) =
          filter (\<lambda>(k, r). \<not> valid_RequestRef now r) (filter (\<lambda>(k, v). k = i) (reqs s))"
    by (simp add: reqs_expired_def filter_filter case_prod_unfold conj_commute)
  then have fe: "filter (\<lambda>(k, v). k = i) (reqs_expired now (reqs s)) = []"
    using one val by simp
  have ml: "map_of (reqs_live now (reqs s)) i = Some r"
    using reqs_live_map [OF dist, of now i] pend val by simp
  let ?c = "error_code E_REQUEST_TIMEOUT" and ?m = "error_message E_REQUEST_TIMEOUT"
  have "timeoutPoll now s =
          s\<lparr>reqs := reqs_live now (reqs s),
            queued := queued s @ error_deliveries (reqs_expired now (reqs s)) ?c ?m\<rparr>"
    using opn reg by (simp add: timeoutPoll_def Let_def simulateErrors_eq)
  moreover have "filter (\<lambda>d. resp_id (snd (snd d)) = i) (error_deliveries (reqs_expired now (reqs s)) ?c ?m) = []"
    unfolding error_deliveries_filter_id fe by (simp add: error_deliveries_def)
  ultimately show ?thesis using ml by simp
qed

section \<open>Properties of a connection\<close>

text \<open>
  C1: in every reachable state of a connection at most one disconnect notification has
  been emitted, and one has been emitted exactly when the connection is closed.
\<close>

theorem one_disconnect_notification:
  assumes "conn_reachable s"
  shows "length (disconnects s) \<le> 1 \<and> (closed s \<longleftrightarrow> disconnects s \<noteq> [])"
  using conn_reachable_inv [OF assms] unfolding conn_inv_def by (cases "closed s") auto

text \<open>
  C9: closing is idempotent: a second \<open>close\<close>, with any reason, changes nothing, so
  the first reason observed is the one reported.
\<close>

theorem close_idempotent: "close r' b' (close r b s) = close r b s"
  by (simp add: close_def [of r' b' "close r b s"])

text \<open>
  C2: a pending request whose deadline has passed is removed by \<open>timeoutPoll\<close> and its
  handler receives exactly one response for its id, the locally built "request timed out"
  error.
\<close>

theorem timeoutPoll_expired:
  assumes inv: "conn_inv s" and opn: "\<not> closed s"
    and pend: "map_of (reqs s) i = Some r" and exp: "\<not> valid_RequestRef now r"
    and h: "handlerObj r = Some x"
  shows "map_of (reqs (timeoutPoll now s)) i = None \<and>
         filter (\<lambda>d. resp_id (snd (snd d)) = i)
                (drop (length (queued s)) (queued (timeoutPoll now s))) =
           [(x, handlerFn r, error_response i r (error_code E_REQUEST_TIMEOUT)
                                (error_message E_REQUEST_TIMEOUT))]"
  using timeoutPoll_answers [OF inv opn pend exp] by (simp add: error_deliveries_def h)

text \<open>
  C10: a response whose id matches no pending request (for instance because the request
  already timed out) is logged and discarded: nothing is delivered and the table is unchanged.
\<close>

theorem late_response_discarded:
  assumes "map_of (reqs s) i = None" and "len \<le> maxItemSize s"
  shows "queued (handleItem len (Some (encode_message (MsgResponse (JInt (sint i)) v))) s) = queued s \<and>
         reqs (handleItem len (Some (encode_message (MsgResponse (JInt (sint i)) v))) s) = reqs s"
  using assms classify_encode [of "MsgResponse (JInt (sint i)) v"]
  by (simp add: handleItem_def decode_item_def handleResponse_def reqs_take_def log_def)


text \<open>
  C4: \<open>timeoutPoll\<close> closes an open connection exactly when it is unregistered past its
  registration deadline, and then with the single reason \<open>RegistrationTimeout\<close>.
\<close>

theorem registration_timeout_closes:
  assumes "conn_inv s" and "\<not> closed s"
  shows "(closed (timeoutPoll now s) \<longleftrightarrow> \<not> registered s \<and> registrationTimeoutTime s <s now) \<and>
         (closed (timeoutPoll now s) \<longrightarrow> disconnects (timeoutPoll now s) = [(RegistrationTimeout, False)])"
  using assms by (auto simp: timeoutPoll_def Let_def close_def simulateErrors_eq conn_inv_def)

text \<open>
  C16: once a connection is closed, no event sends a frame, delivers a response or emits a
  disconnect notification any more.
\<close>

theorem closed_run:
  assumes "conn_inv s" and "closed s"
  shows "wire (conn_run es s) = wire s \<and> queued (conn_run es s) = queued s \<and>
         disconnects (conn_run es s) = disconnects s"
proof -
  have "reqs s = []" using assms by (simp add: conn_inv_def)
  with assms(2) have "wire (conn_run es s) = wire s \<and> queued (conn_run es s) = queued s \<and>
         disconnects (conn_run es s) = disconnects s \<and> closed (conn_run es s) \<and> reqs (conn_run es s) = []"
  proof (induction es arbitrary: s)
    case Nil
    then show ?case by simp
  next
    case (Cons x es)
    obtain now e where x: "x = (now, e)" by (cases x)
    from closed_step [OF Cons.prems, of now e] Cons.IH [of "conn_step now e s"] show ?case
      by (simp add: x)
  qed
  then show ?thesis by simp
qed

text \<open>
  C3: \<open>sendRequest\<close> on a closed connection returns \<open>-1\<close> and changes nothing; on an
  open one it returns the next id, records the \<open>RequestRef\<close> under it (other entries
  unchanged), and writes the request frame.
\<close>

theorem sendRequest_contract:
  "fst (sendRequest obj fn m p t now s) = (if closed s then - 1 else next_id (lastId s)) \<and>
   (closed s \<longrightarrow> snd (sendRequest obj fn m p t now s) = s) \<and>
   (\<not> closed s \<longrightarrow>
      (let s' = snd (sendRequest obj fn m p t now s); i = next_id (lastId s) in
       lastId s' = i \<and> map_of (reqs s') i = Some (RequestRef obj fn m t now) \<and>
       (\<forall>k. k \<noteq> i \<longrightarrow> map_of (reqs s') k = map_of (reqs s) k) \<and>
       wire s' = wire s @ [MsgRequest m (JInt (sint i)) p] \<and> queued s' = queued s))"
  by (simp add: sendRequest_def sendDocument_def Let_def reqs_insert_map)

text \<open>
  C18: the ids returned by successive \<open>sendRequest\<close> calls on an open connection are
  strictly increasing and above the counter's start, as long as the C \<open>int\<close> counter does
  not pass its maximum.
\<close>

theorem ids_strictly_increasing:
  "\<not> closed s \<Longrightarrow> sint (lastId s) + int (length cs) < 2 ^ 31 \<Longrightarrow>
   sorted_wrt (<) (map sint (fst (sendRequests cs s))) \<and>
   list_all (\<lambda>i. sint (lastId s) < sint i) (fst (sendRequests cs s)) \<and>
   length (fst (sendRequests cs s)) = length cs"
proof (induction cs arbitrary: s)
  case Nil
  then show ?case by simp
next
  case (Cons c cs)
  obtain obj fn m p t now where c: "c = (obj, fn, m, p, t, now)" by (cases c) auto
  let ?s1 = "snd (sendRequest obj fn m p t now s)"
  have l1: "lastId ?s1 = next_id (lastId s)" and c1: "\<not> closed ?s1"
    using Cons.prems(1) by (simp_all add: sendRequest_def sendDocument_def Let_def)
  have inc: "sint (next_id (lastId s)) = sint (lastId s) + 1"
    using Cons.prems(2) by (intro sint_next_id) simp
  have "sint (lastId ?s1) + int (length cs) < 2 ^ 31"
    using Cons.prems(2) l1 inc by simp
  with c1 have IH: "sorted_wrt (<) (map sint (fst (sendRequests cs ?s1))) \<and>
     list_all (\<lambda>i. sint (lastId ?s1) < sint i) (fst (sendRequests cs ?s1)) \<and>
     length (fst (sendRequests cs ?s1)) = length cs"
    by (rule Cons.IH)
  have hd: "fst (sendRequest obj fn m p t now s) = next_id (lastId s)"
    using Cons.prems(1) by (simp add: sendRequest_def Let_def)
  show ?case
    using IH l1 inc hd by (auto simp: c case_prod_beta list_all_iff sorted_wrt_map)
qed


text \<open>
  C19: every reachable connection satisfies the connection invariant \<open>conn_inv\<close>.
\<close>

theorem conn_invariant: "conn_reachable s \<Longrightarrow> conn_inv s"
  by (rule conn_reachable_inv)

text \<open>
  C20: in every reachable state, each response queued to a handler is successful or
  carries an error object with an integer \<open>code\<close> and a string \<open>message\<close>: unverified
  error payloads never reach a handler.
\<close>

theorem responses_verified_reachable: "conn_reachable s \<Longrightarrow> responses_verified s"
proof (induction rule: conn_reachable.induct)
  case (init name isInbound maxSize regTimeout now)
  then show ?case by (simp add: responses_verified_def init_RemDev_def)
next
  case (step s now e)
  from step.IH show ?case by (rule responses_verified_step)
qed


text \<open>
  A notification read by a registered peer is handed on as a \<open>Request\<close> without id,
  for which \<open>isRequest\<close> fails; answering its handle releases it and writes nothing.
\<close>

theorem notification_roundtrip:
  assumes "\<not> closed s" and "\<not> closed t" and "registered t" and "len \<le> maxItemSize t"
    and "m \<noteq> ''register''" and "m \<noteq> ''disconnect''" and "p = None \<or> is_object (the p)"
  shows "let t' = handleItem len (Some (encode_message (last (wire (sendNotification m p s))))) t;
             rq = \<lparr>req_method = m, req_params = p, req_id = None\<rparr>; hn = nextHandle t
         in map_of (inreqs t') hn = Some rq \<and> \<not> isRequest rq \<and>
            (case sendResponse hn r t' of Inl e \<Rightarrow> False
             | Inr t'' \<Rightarrow> wire t'' = wire t' \<and> map_of (inreqs t'') hn = None)"
proof -
  have "last (wire (sendNotification m p s)) = MsgNotification m p"
    using assms(1) by (simp add: sendNotification_def sendDocument_def)
  moreover have "classify (encode_message (MsgNotification m p)) = Inr (MsgNotification m p)"
    using assms(7) by (intro classify_encode) auto
  ultimately show ?thesis
    using assms(2-6)
    by (simp add: handleItem_def decode_item_def handleCall_def dispatch_request_def Let_def
                  isRequest_def update_conv' sendResponse_def take_request_def delete_conv')
qed

text \<open>
  C22: an inbound document whose extra members repeat keys already present is processed
  exactly as the document without them: the connection reads each key once, through the
  first occurrence.
\<close>

theorem handleItem_duplicate_keys:
  assumes "set (alist_keys ms') \<subseteq> set (alist_keys ms)"
  shows "handleItem len (Some (JObject (ms @ ms'))) s = handleItem len (Some (JObject ms)) s"
  using classify_shadowed [OF assms] by (simp add: handleItem_def decode_item_def)

text \<open>
  C23: an inbound request handle is answered at most once: after a response, a second
  response or error on the same handle is refused; the response is written only for a
  request (not a notification) on an open connection, with result \<open>true\<close> by default.
\<close>

theorem request_handle_single_use:
  assumes "map_of (inreqs s) hn = Some rq" and "sendResponse hn r s = Inr s'"
  shows "sendResponse hn r' s' = Inl StaleRequest \<and> sendError hn c m d s' = Inl StaleRequest \<and>
         wire s' = (case req_id rq of None \<Rightarrow> wire s
                    | Some i \<Rightarrow> if closed s then wire s
                                else wire s @ [MsgResponse i (case r of None \<Rightarrow> JBool True | Some v \<Rightarrow> v)])"
  using assms
  by (auto simp: sendResponse_def sendError_def take_request_def sendDocument_def delete_conv'
           split: option.splits)

text \<open>
  Closing an open connection empties the correlation table, answers every pending
  request whose handler still exists with one timeout-style error, releases the transport,
  emits the single notification with the given reason and origin, and writes no frame.
\<close>

theorem close_effects:
  assumes "conn_inv s" and "\<not> closed s"
  shows "disconnects (close r b s) = [(r, b)] \<and> terminated (close r b s) \<and> reqs (close r b s) = [] \<and>
         queued (close r b s) = queued s @ error_deliveries (reqs s) (error_code E_REQUEST_TIMEOUT)
                                              (error_message E_REQUEST_TIMEOUT) \<and>
         wire (close r b s) = wire s"
  using assms by (simp add: close_def simulateErrors_eq Let_def conn_inv_def)

text \<open>
  Starting unregistered, setting registration flags in any order and with any
  repetition makes the connection registered exactly when all three flags have been set.
\<close>

theorem registration_order_independent:
  assumes "set fs \<subseteq> {RegSentFlag, RegAcceptedFlag, RemoteRegAcceptedFlag}"
    and "regState s = UnregisteredState" and "\<not> registered s"
  shows "registered (fold set_reg_flag fs s) \<longleftrightarrow>
           set fs = {RegSentFlag, RegAcceptedFlag, RemoteRegAcceptedFlag}"
  using assms regState_fold [of fs s] or_reg_flags [OF assms(1)]
  by (auto simp: reg_flag_defs split: if_splits)

text \<open>
  Scenario: after the two-sided registration handshake, a client's \<open>ping\<close>
  request is dispatched by the server, the server's default response is the frame
  \<open>{"id":2,"result":true}\<close>, and the client's handler receives a successful response
  whose main value is \<open>true\<close>.
\<close>

theorem ping_scenario:
  "let C0 = init_RemDev ''Unknown1'' False 4096 30000 1000;
       S0 = init_RemDev ''Unknown1'' True 4096 30000 1000;
       C1 = snd (sendRegistration 7 None 5000 1001 C0);
       S1 = handleItem 64 (Some (encode_message (last (wire C1)))) S0;
       S2 = snd (sendRegistration 8 None 5000 1002 S1);
       C2 = handleItem 64 (Some (encode_message (wire S2 ! 0))) C1;
       C3 = handleItem 64 (Some (encode_message (wire S2 ! 1))) C2;
       S3 = handleItem 64 (Some (encode_message (last (wire C3)))) S2;
       C4 = snd (sendRequest (Some 7) ''onPing'' ''ping'' None 5000 1003 C3);
       S4 = handleItem 64 (Some (encode_message (last (wire C4)))) S3
   in registered C3 \<and> registered S3 \<and>
      last (wire C4) = MsgRequest ''ping'' (JInt 2) None \<and>
      dispatched S4 = [(0, \<lparr>req_method = ''ping'', req_params = None, req_id = Some (JInt 2)\<rparr>)] \<and>
      (case sendResponse 0 None S4 of Inl e \<Rightarrow> False
       | Inr S5 \<Rightarrow>
           encode_message (last (wire S5)) = JObject [(''id'', JInt 2), (''result'', JBool True)] \<and>
           drop (length (queued C4))
             (queued (handleItem 64 (Some (encode_message (last (wire S5)))) C4)) =
             [(7, ''onPing'', \<lparr>successful = True, resp_id = 2, resp_method = ''ping'',
                               mainVal = JBool True\<rparr>)])"
  by code_simp




text \<open>
  C14: the timeout of a request on a registered connection fires exactly on time. For a
  request issued at a positive time with a positive timeout whose deadline fits in a
  \<open>qint64\<close>, a poll at any non-zero time up to and including the deadline leaves it
  pending and delivers nothing for its id; a poll at any later time removes it and its
  live handler receives exactly one "request timed out" error.
\<close>

theorem request_timeout_exact:
  assumes inv: "conn_inv s" and opn: "\<not> closed s" and reg: "registered s"
    and pend: "map_of (reqs s) i = Some (RequestRef (Some x) fn m T t0)"
    and pos: "0 <s t0" "0 <s T" and fits: "sint t0 + sint T < 2 ^ 63" and now0: "now \<noteq> 0"
  shows "map_of (reqs (timeoutPoll now s)) i =
           (if sint now \<le> sint t0 + sint T then Some (RequestRef (Some x) fn m T t0) else None) \<and>
         filter (\<lambda>d. resp_id (snd (snd d)) = i) (drop (length (queued s)) (queued (timeoutPoll now s))) =
           (if sint now \<le> sint t0 + sint T then []
            else [(x, fn, error_response i (RequestRef (Some x) fn m T t0) (error_code E_REQUEST_TIMEOUT)
                           (error_message E_REQUEST_TIMEOUT))])"
proof -
  have v: "valid_RequestRef now (RequestRef (Some x) fn m T t0) \<longleftrightarrow> sint now \<le> sint t0 + sint T"
    using valid_RequestRef_deadline [OF pos fits now0] by simp
  show ?thesis
  proof (cases "sint now \<le> sint t0 + sint T")
    case True
    with v timeoutPoll_keeps [OF inv opn reg pend] show ?thesis by simp
  next
    case False
    with v timeoutPoll_answers [OF inv opn pend] show ?thesis
      by (simp add: error_deliveries_def RequestRef_def)
  qed
qed


section \<open>Witnesses\<close>

theorem one_disconnect_notification_witness:
  "let s = conn_step 1001 (Close ShuttingDown False) (init_RemDev ''Unknown1'' True 4096 30000 1000)
   in conn_reachable s \<and> length (disconnects s) \<le> 1 \<and> (closed s \<longleftrightarrow> disconnects s \<noteq> [])"
proof -
  have r: "conn_reachable (conn_step 1001 (Close ShuttingDown False)
                             (init_RemDev ''Unknown1'' True 4096 30000 1000))"
    by (rule conn_reachable.step [OF conn_reachable.init])
  show ?thesis unfolding Let_def using r one_disconnect_notification [OF r] by blast
qed

theorem timeoutPoll_expired_witness:
  "let s = snd (sendRequest (Some 7) ''onSlow'' ''slow'' None 50 1000
                  (init_RemDev ''Unknown1'' False 4096 30000 1000));
       r = RequestRef (Some 7) ''onSlow'' ''slow'' 50 1000
   in conn_inv s \<and> \<not> closed s \<and> map_of (reqs s) 1 = Some r \<and> \<not> valid_RequestRef 1051 r \<and>
      handlerObj r = Some 7 \<and>
      map_of (reqs (timeoutPoll 1051 s)) 1 = None \<and>
      filter (\<lambda>d. resp_id (snd (snd d)) = 1) (drop (length (queued s)) (queued (timeoutPoll 1051 s))) =
        [(7, handlerFn r, error_response 1 r (error_code E_REQUEST_TIMEOUT) (error_message E_REQUEST_TIMEOUT))]"
proof -
  define s where "s = snd (sendRequest (Some 7) ''onSlow'' ''slow'' None 50 1000
                           (init_RemDev ''Unknown1'' False 4096 30000 1000))"
  define r where "r = RequestRef (Some 7) ''onSlow'' ''slow'' 50 1000"
  have h: "conn_inv s" "\<not> closed s" "map_of (reqs s) 1 = Some r" "\<not> valid_RequestRef 1051 r"
      "handlerObj r = Some 7"
    unfolding s_def r_def by code_simp+
  show ?thesis unfolding Let_def s_def [symmetric] r_def [symmetric]
    using h timeoutPoll_expired [OF h] by blast
qed

theorem late_response_discarded_witness:
  "let s = init_RemDev ''Unknown1'' True 4096 30000 1000
   in map_of (reqs s) 5 = None \<and> (64::nat) \<le> maxItemSize s \<and>
      queued (handleItem 64 (Some (encode_message (MsgResponse (JInt (sint (5::local_id))) (JBool True)))) s) = queued s \<and>
      reqs (handleItem 64 (Some (encode_message (MsgResponse (JInt (sint (5::local_id))) (JBool True)))) s) = reqs s"
proof -
  define s where "s = init_RemDev ''Unknown1'' True 4096 30000 1000"
  have h: "map_of (reqs s) 5 = None" "(64::nat) \<le> maxItemSize s"
    unfolding s_def by code_simp+
  show ?thesis unfolding Let_def s_def [symmetric]
    using h late_response_discarded [OF h, of "JBool True"] by blast
qed


theorem registration_timeout_closes_witness:
  "let s = init_RemDev ''Unknown1'' True 4096 30000 1000
   in conn_inv s \<and> \<not> closed s \<and>
      (closed (timeoutPoll 31001 s) \<longleftrightarrow> \<not> registered s \<and> registrationTimeoutTime s <s 31001) \<and>
      (closed (timeoutPoll 31001 s) \<longrightarrow> disconnects (timeoutPoll 31001 s) = [(RegistrationTimeout, False)]) \<and>
      closed (timeoutPoll 31001 s)"
proof -
  define s where "s = init_RemDev ''Unknown1'' True 4096 30000 1000"
  have h: "conn_inv s" "\<not> closed s" unfolding s_def by code_simp+
  have c: "\<not> registered s \<and> registrationTimeoutTime s <s 31001" unfolding s_def by code_simp
  show ?thesis unfolding Let_def s_def [symmetric]
    using h c registration_timeout_closes [OF h, of 31001] by blast
qed

theorem closed_run_witness:
  "let s = close ShuttingDown False (init_RemDev ''Unknown1'' True 4096 30000 1000);
       es = [(2000, TimeoutPoll), (2001, SendNotification ''x'' None),
             (2002, SendRequest (Some 7) ''h'' ''m'' None 50)]
   in conn_inv s \<and> closed s \<and>
      wire (conn_run es s) = wire s \<and> queued (conn_run es s) = queued s \<and>
      disconnects (conn_run es s) = disconnects s"
proof -
  define s where "s = close ShuttingDown False (init_RemDev ''Unknown1'' True 4096 30000 1000)"
  have h: "conn_inv s" "closed s" unfolding s_def by code_simp+
  show ?thesis unfolding Let_def s_def [symmetric]
    using h closed_run [OF h] by blast
qed

theorem sendRequest_contract_witness:
  "let s = init_RemDev ''Unknown1'' True 4096 30000 1000
   in \<not> closed s \<and> fst (sendRequest (Some 7) ''h'' ''m'' None 50 1000 s) = 1 \<and>
      map_of (reqs (snd (sendRequest (Some 7) ''h'' ''m'' None 50 1000 s))) 1 =
        Some (RequestRef (Some 7) ''h'' ''m'' 50 1000)"
proof -
  define s where "s = init_RemDev ''Unknown1'' True 4096 30000 1000"
  have h: "\<not> closed s" "lastId s = 0" unfolding s_def by code_simp+
  have n: "next_id 0 = 1" by (simp add: next_id_def)
  show ?thesis unfolding Let_def s_def [symmetric]
    using h n sendRequest_contract [of "Some 7" "''h''" "''m''" None 50 1000 s] by (simp add: Let_def)
qed

theorem ids_strictly_increasing_witness:
  "let s = init_RemDev ''Unknown1'' True 4096 30000 1000;
       cs = [(Some 7, ''h'', ''a'', None, 50, 1000), (Some 7, ''h'', ''b'', None, 50, 1001)]
   in \<not> closed s \<and> sint (lastId s) + int (length cs) < 2 ^ 31 \<and>
      sorted_wrt (<) (map sint (fst (sendRequests cs s))) \<and>
      list_all (\<lambda>i. sint (lastId s) < sint i) (fst (sendRequests cs s)) \<and>
      length (fst (sendRequests cs s)) = length cs"
proof -
  define s where "s = init_RemDev ''Unknown1'' True 4096 30000 1000"
  define cs :: "(handler option \<times> string \<times> string \<times> jvalue option \<times> qint64 \<times> qint64) list"
    where "cs = [(Some 7, ''h'', ''a'', None, 50, 1000), (Some 7, ''h'', ''b'', None, 50, 1001)]"
  have h: "\<not> closed s" "sint (lastId s) + int (length cs) < 2 ^ 31"
    unfolding s_def cs_def by code_simp+
  show ?thesis unfolding Let_def s_def [symmetric] cs_def [symmetric]
    using h ids_strictly_increasing [OF h] by blast
qed

theorem conn_invariant_witness:
  "let s = conn_step 1001 (SendRequest (Some 7) ''h'' ''m'' None 50) (init_RemDev ''Unknown1'' True 4096 30000 1000)
   in conn_reachable s \<and> conn_inv s"
proof -
  have r: "conn_reachable (conn_step 1001 (SendRequest (Some 7) ''h'' ''m'' None 50)
                             (init_RemDev ''Unknown1'' True 4096 30000 1000))"
    by (rule conn_reachable.step [OF conn_reachable.init])
  show ?thesis unfolding Let_def using r conn_invariant [OF r] by blast
qed

theorem responses_verified_reachable_witness:
  "let s = conn_step 1001 (Close ShuttingDown False)
             (conn_step 1000 (SendRequest (Some 7) ''h'' ''m'' None 50)
               (init_RemDev ''Unknown1'' True 4096 30000 1000))
   in conn_reachable s \<and> responses_verified s"
proof -
  have r: "conn_reachable (conn_step 1001 (Close ShuttingDown False)
             (conn_step 1000 (SendRequest (Some 7) ''h'' ''m'' None 50)
               (init_RemDev ''Unknown1'' True 4096 30000 1000)))"
    by (intro conn_reachable.step conn_reachable.init)
  show ?thesis unfolding Let_def using r responses_verified_reachable [OF r] by blast
qed


theorem notification_roundtrip_witness:
  "let s = init_RemDev ''Unknown1'' False 4096 30000 1000;
       t = (init_RemDev ''Unknown1'' True 4096 30000 1000)\<lparr>regState := RegisteredState, registered := True\<rparr>;
       t' = handleItem 64 (Some (encode_message (last (wire (sendNotification ''tick'' None s))))) t;
       rq = \<lparr>req_method = ''tick'', req_params = None, req_id = None\<rparr>; hn = nextHandle t
   in \<not> closed s \<and> \<not> closed t \<and> registered t \<and> (64::nat) \<le> maxItemSize t \<and>
      ''tick'' \<noteq> ''register'' \<and> ''tick'' \<noteq> ''disconnect'' \<and> (None = None \<or> is_object (the None)) \<and>
      map_of (inreqs t') hn = Some rq \<and> \<not> isRequest rq \<and>
      (case sendResponse hn None t' of Inl e \<Rightarrow> False
       | Inr t'' \<Rightarrow> wire t'' = wire t' \<and> map_of (inreqs t'') hn = None)"
proof -
  define s where "s = init_RemDev ''Unknown1'' False 4096 30000 1000"
  define t where "t = (init_RemDev ''Unknown1'' True 4096 30000 1000)\<lparr>regState := RegisteredState, registered := True\<rparr>"
  have h: "\<not> closed s" "\<not> closed t" "registered t" "(64::nat) \<le> maxItemSize t"
    "''tick'' \<noteq> ''register''" "''tick'' \<noteq> ''disconnect''" "None = None \<or> is_object (the None)"
    unfolding s_def t_def by code_simp+
  show ?thesis unfolding Let_def s_def [symmetric] t_def [symmetric]
    using h notification_roundtrip [OF h, of None] by (simp only: Let_def) blast
qed

theorem handleItem_duplicate_keys_witness:
  "let ms = [(''method'', JString ''ping''), (''id'', JInt 1)]; ms' = [(''id'', JInt 2)];
       s = (init_RemDev ''Unknown1'' True 4096 30000 1000)\<lparr>regState := RegisteredState, registered := True\<rparr>
   in set (alist_keys ms') \<subseteq> set (alist_keys ms) \<and>
      handleItem 64 (Some (JObject (ms @ ms'))) s = handleItem 64 (Some (JObject ms)) s"
proof -
  define ms :: "(string \<times> jvalue) list" where "ms = [(''method'', JString ''ping''), (''id'', JInt 1)]"
  define ms' :: "(string \<times> jvalue) list" where "ms' = [(''id'', JInt 2)]"
  have h: "set (alist_keys ms') \<subseteq> set (alist_keys ms)" unfolding ms_def ms'_def by simp
  show ?thesis unfolding Let_def ms_def [symmetric] ms'_def [symmetric]
    using h handleItem_duplicate_keys [OF h] by blast
qed

theorem request_handle_single_use_witness:
  "let t = dispatch_request ''ping'' (Some (JInt 1)) None (init_RemDev ''Unknown1'' True 4096 30000 1000);
       rq = \<lparr>req_method = ''ping'', req_params = None, req_id = Some (JInt 1)\<rparr>
   in map_of (inreqs t) 0 = Some rq \<and>
      (case sendResponse 0 None t of Inl e \<Rightarrow> False
       | Inr t' \<Rightarrow> sendResponse 0 None t' = Inl StaleRequest \<and>
                   sendError 0 (-32603) ''Internal error'' None t' = Inl StaleRequest \<and>
                   wire t' = wire t @ [MsgResponse (JInt 1) (JBool True)])"
proof -
  define t where "t = dispatch_request ''ping'' (Some (JInt 1)) None (init_RemDev ''Unknown1'' True 4096 30000 1000)"
  define rq where "rq = \<lparr>req_method = ''ping'', req_params = None, req_id = Some (JInt 1)\<rparr>"
  define t' where "t' = t\<lparr>inreqs := AList.delete 0 (inreqs t)\<rparr>"
  have h1: "map_of (inreqs t) 0 = Some rq" unfolding t_def rq_def by code_simp
  have h2: "sendResponse 0 None t = Inr (sendDocument (MsgResponse (JInt 1) (JBool True)) t')"
    unfolding t_def t'_def by code_simp
  have c: "\<not> closed t" unfolding t_def by code_simp
  show ?thesis unfolding Let_def t_def [symmetric] rq_def [symmetric]
    using h1 h2 c request_handle_single_use [OF h1 h2, of None "-32603" "''Internal error''" None]
    by (simp add: rq_def)
qed

theorem close_effects_witness:
  "let s = snd (sendRequest (Some 7) ''onSlow'' ''slow'' None 50 1000
                  (init_RemDev ''Unknown1'' False 4096 30000 1000))
   in conn_inv s \<and> \<not> closed s \<and>
      disconnects (close ShuttingDown False s) = [(ShuttingDown, False)] \<and>
      terminated (close ShuttingDown False s) \<and> reqs (close ShuttingDown False s) = [] \<and>
      queued (close ShuttingDown False s) =
        queued s @ error_deliveries (reqs s) (error_code E_REQUEST_TIMEOUT) (error_message E_REQUEST_TIMEOUT) \<and>
      wire (close ShuttingDown False s) = wire s"
proof -
  define s where "s = snd (sendRequest (Some 7) ''onSlow'' ''slow'' None 50 1000
                           (init_RemDev ''Unknown1'' False 4096 30000 1000))"
  have h: "conn_inv s" "\<not> closed s" unfolding s_def by code_simp+
  show ?thesis unfolding Let_def s_def [symmetric]
    using h close_effects [OF h, of ShuttingDown False] by blast
qed

theorem registration_order_independent_witness:
  "let s = init_RemDev ''Unknown1'' True 4096 30000 1000;
       fs = [RegAcceptedFlag, RemoteRegAcceptedFlag, RegAcceptedFlag, RegSentFlag]
   in set fs \<subseteq> {RegSentFlag, RegAcceptedFlag, RemoteRegAcceptedFlag} \<and>
      regState s = UnregisteredState \<and> \<not> registered s \<and> registered (fold set_reg_flag fs s)"
proof -
  define s where "s = init_RemDev ''Unknown1'' True 4096 30000 1000"
  define fs where "fs = [RegAcceptedFlag, RemoteRegAcceptedFlag, RegAcceptedFlag, RegSentFlag]"
  have h: "set fs \<subseteq> {RegSentFlag, RegAcceptedFlag, RemoteRegAcceptedFlag}"
    "regState s = UnregisteredState" "\<not> registered s"
    unfolding s_def fs_def by (simp_all add: init_RemDev_def)
  have e: "set fs = {RegSentFlag, RegAcceptedFlag, RemoteRegAcceptedFlag}"
    unfolding fs_def by auto
  show ?thesis unfolding Let_def s_def [symmetric] fs_def [symmetric]
    using h e registration_order_independent [OF h] by blast
qed




theorem request_timeout_exact_witness:
  "let C0 = (init_RemDev ''Unknown1'' False 4096 30000 1000)\<lparr>regState := RegisteredState, registered := True\<rparr>;
       s = snd (sendRequest (Some 7) ''onSlow'' ''slow'' None 50 1000 C0);
       r = RequestRef (Some 7) ''onSlow'' ''slow'' 50 1000
   in conn_inv s \<and> \<not> closed s \<and> registered s \<and> map_of (reqs s) 1 = Some r \<and>
      (0::qint64) <s 1000 \<and> (0::qint64) <s 50 \<and> sint (1000::qint64) + sint (50::qint64) < 2 ^ 63 \<and>
      map_of (reqs (timeoutPoll 1050 s)) 1 = Some r \<and>
      filter (\<lambda>d. resp_id (snd (snd d)) = 1) (drop (length (queued s)) (queued (timeoutPoll 1050 s))) = [] \<and>
      map_of (reqs (timeoutPoll 1051 s)) 1 = None \<and>
      filter (\<lambda>d. resp_id (snd (snd d)) = 1) (drop (length (queued s)) (queued (timeoutPoll 1051 s))) =
        [(7, ''onSlow'', error_response 1 r (error_code E_REQUEST_TIMEOUT) (error_message E_REQUEST_TIMEOUT))]"
proof -
  define s where "s = snd (sendRequest (Some 7) ''onSlow'' ''slow'' None 50 1000
                    ((init_RemDev ''Unknown1'' False 4096 30000 1000)\<lparr>regState := RegisteredState, registered := True\<rparr>))"
  define r where "r = RequestRef (Some 7) ''onSlow'' ''slow'' 50 1000"
  have h: "conn_inv s" "\<not> closed s" "registered s" "map_of (reqs s) 1 = Some r"
    unfolding s_def r_def by code_simp+
  have p: "(0::qint64) <s 1000" "(0::qint64) <s 50" "sint (1000::qint64) + sint (50::qint64) < 2 ^ 63"
    by (simp_all add: word_sless_alt)
  have n: "(1050::qint64) \<noteq> 0" "(1051::qint64) \<noteq> 0" by simp_all
  show ?thesis unfolding Let_def s_def [symmetric] r_def [symmetric]
    using h p request_timeout_exact [OF h(1-3) h(4) [unfolded r_def] p n(1)]
          request_timeout_exact [OF h(1-3) h(4) [unfolded r_def] p n(2)]
    by (simp add: r_def)
qed

end
