(* ===== verification/Qt_Text.thy ===== *)
theory Qt_Text
  imports DDX_Prelude
begin

text \<open>
  The few text operations of Qt that the sources use to build names and log lines:
  \<open>QString::number\<close> and \<open>QString::arg(int)\<close> (decimal printing of a C \<open>int\<close>),
  \<open>QString::trimmed\<close> (strip white space at both ends) and \<open>QIODevice::readLine\<close>
  on a byte buffer (\<open>canReadLine\<close> and one line including its terminator). They are
  library code: the definitions follow Qt's documented behaviour, and the lemmas here
  (decimal printing is injective, a line read leaves exactly the bytes after it) are
  what the component theories build on.
\<close>

section \<open>Decimal printing (QString::number)\<close>

definition digit_char :: "nat \<Rightarrow> char" where
  "digit_char d = char_of (48 + d)"

fun nat_digits :: "nat \<Rightarrow> string" where
  "nat_digits n = (if n < 10 then [digit_char n] else nat_digits (n div 10) @ [digit_char (n mod 10)])"

definition QString_number :: "int \<Rightarrow> string" where
  "QString_number i = (if i < 0 then ''-'' @ nat_digits (nat (- i)) else nat_digits (nat i))"

text \<open>Reading the digits back (used to show that printing is injective).\<close>

definition digit_val :: "char \<Rightarrow> nat" where
  "digit_val c = of_char c - 48"

definition parse_digits :: "string \<Rightarrow> nat" where
  "parse_digits cs = foldl (\<lambda>a c. 10 * a + digit_val c) 0 cs"

section \<open>White space (QString::trimmed)\<close>

text \<open>\<open>QChar::isSpace\<close> on the ASCII range: tab, line feed, vertical tab, form feed,
  carriage return and space.\<close>

definition isSpace :: "char \<Rightarrow> bool" where
  "isSpace c \<longleftrightarrow> (let n = (of_char c :: nat) in 9 \<le> n \<and> n \<le> 13) \<or> c = CHR '' ''"

definition trimmed :: "string \<Rightarrow> string" where
  "trimmed cs = rev (dropWhile isSpace (rev (dropWhile isSpace cs)))"

section \<open>Line reading (QIODevice::canReadLine, QIODevice::readLine)\<close>

definition canReadLine :: "string \<Rightarrow> bool" where
  "canReadLine buf \<longleftrightarrow> CHR ''\<newline>'' \<in> set buf"

text \<open>
  \<open>readLine(data, maxSize)\<close> with \<open>maxSize\<close> larger than the bytes available: the bytes
  up to and including the first line feed, and what is left in the buffer.
\<close>

definition readLine :: "string \<Rightarrow> string \<times> string" where
  "readLine buf =
     (let line = takeWhile (\<lambda>c. c \<noteq> CHR ''\<newline>'') buf @ [CHR ''\<newline>'']
      in (line, drop (length line) buf))"

text \<open>
  \<open>readLine(data, maxSize)\<close> in general: at most \<open>maxSize - 1\<close> bytes, stopping after
  the first line feed or at the end of the available data; the bytes read and what is
  left.
\<close>

definition readLine_max :: "nat \<Rightarrow> string \<Rightarrow> string \<times> string" where
  "readLine_max maxSize buf =
     (let upto = (if CHR ''\<newline>'' \<in> set buf
                  then takeWhile (\<lambda>c. c \<noteq> CHR ''\<newline>'') buf @ [CHR ''\<newline>''] else buf);
          line = take (maxSize - 1) upto
      in (line, drop (length line) buf))"

section \<open>Decimal printing is injective\<close>

lemma digit_val_digit_char [simp]: "d < 10 \<Longrightarrow> digit_val (digit_char d) = d"
  by (simp add: digit_val_def digit_char_def)

lemma digit_char_not_minus [simp]: "d < 10 \<Longrightarrow> digit_char d \<noteq> CHR ''-''"
proof
  assume "d < 10" "digit_char d = CHR ''-''"
  then have "of_char (digit_char d) = (of_char (CHR ''-'') :: nat)" by simp
  with \<open>d < 10\<close> show False by (simp add: digit_char_def)
qed

lemma digit_char_digits [simp]:
  "digit_char 0 = CHR ''0''" "digit_char (Suc 0) = CHR ''1''" "digit_char 2 = CHR ''2''"
  "digit_char 3 = CHR ''3''" "digit_char 4 = CHR ''4''" "digit_char 5 = CHR ''5''"
  "digit_char 6 = CHR ''6''" "digit_char 7 = CHR ''7''" "digit_char 8 = CHR ''8''"
  "digit_char 9 = CHR ''9''"
  unfolding digit_char_def by code_simp+

lemma parse_digits_snoc: "parse_digits (cs @ [c]) = 10 * parse_digits cs + digit_val c"
  by (simp add: parse_digits_def)

lemma parse_nat_digits [simp]: "parse_digits (nat_digits n) = n"
proof (induction n rule: nat_digits.induct)
  case (1 n)
  then show ?case
    by (cases "n < 10") (simp_all add: parse_digits_def parse_digits_snoc [unfolded parse_digits_def])
qed

lemma nat_digits_ne [simp]: "nat_digits n \<noteq> []"
  by (induction n rule: nat_digits.induct) simp

lemma hd_nat_digits: "hd (nat_digits n) \<noteq> CHR ''-''"
proof (induction n rule: nat_digits.induct)
  case (1 n)
  then show ?case by (cases "n < 10") (simp_all add: hd_append)
qed

lemma nat_digits_inj: "nat_digits m = nat_digits n \<longleftrightarrow> m = n"
  by (metis parse_nat_digits)

lemma QString_number_inj [simp]: "QString_number i = QString_number j \<longleftrightarrow> i = j"
proof
  assume eq: "QString_number i = QString_number j"
  have neg: "\<not> (''-'' @ nat_digits a = nat_digits b)" for a b
    using hd_nat_digits [of b] by (metis append_Cons append_Nil list.sel(1))
  show "i = j"
  proof (cases "i < 0"; cases "j < 0")
    assume "i < 0" "j < 0"
    with eq show ?thesis by (simp add: QString_number_def nat_digits_inj del: nat_digits.simps)
  next
    assume "\<not> i < 0" "\<not> j < 0"
    with eq show ?thesis by (simp add: QString_number_def nat_digits_inj del: nat_digits.simps)
  next
    assume "i < 0" "\<not> j < 0"
    with eq neg show ?thesis by (simp add: QString_number_def del: nat_digits.simps)
  next
    assume "\<not> i < 0" "j < 0"
    with eq neg [symmetric] show ?thesis by (simp add: QString_number_def del: nat_digits.simps)
  qed
qed simp

section \<open>Line reading\<close>

lemma readLine_append:
  "canReadLine a \<Longrightarrow> readLine (a @ b) = (fst (readLine a), snd (readLine a) @ b)"
  by (induction a) (auto simp: readLine_def canReadLine_def Let_def)

lemma readLine_frame:
  "CHR ''\<newline>'' \<notin> set l \<Longrightarrow> readLine (l @ CHR ''\<newline>'' # rest) = (l @ [CHR ''\<newline>''], rest)"
  by (induction l) (auto simp: readLine_def Let_def)

lemma readLine_shorter: "canReadLine buf \<Longrightarrow> length (snd (readLine buf)) < length buf"
  by (induction buf) (auto simp: readLine_def canReadLine_def Let_def)

lemma length_takeWhile_nl:
  "CHR ''\<newline>'' \<in> set buf \<Longrightarrow> length (takeWhile (\<lambda>c. c \<noteq> CHR ''\<newline>'') buf) < length buf"
  by (induction buf) auto

text \<open>A buffer one byte larger than the available data always takes the whole line.\<close>

lemma readLine_max_full:
  "canReadLine buf \<Longrightarrow> readLine_max (length buf + 1) buf = readLine buf"
  using length_takeWhile_nl [of buf]
  by (simp add: readLine_max_def readLine_def canReadLine_def Let_def)

lemma readLine_line_pos [simp]: "0 < length (fst (readLine buf))"
  by (simp add: readLine_def Let_def)

lemma canReadLine_append [simp]: "canReadLine (a @ b) \<longleftrightarrow> canReadLine a \<or> canReadLine b"
  by (auto simp: canReadLine_def)

end
