(* ===== verification/DevMgr.thy ===== *)
theory DevMgr
  imports Connection Qt_Text
begin

text \<open>
  The device registry of the test GUI, class \<open>DevMgr\<close> of
  \<open>src/DDX-testgui/devmgr.cpp\<close>. Its state is the list \<open>devices\<close> of \<open>RemDev\<close>
  pointers, the counter \<open>unregCt\<close> of provisional names, the flag \<open>closing\<close> and the
  mutex \<open>dLock\<close>. The connections the pointers refer to live in an explicit heap
  (\<open>heap\<close>, from references to \<open>remdev\<close> states of theory \<open>Connection\<close>), because
  \<open>closeAll\<close> mutates them through the registry's pointers. \<open>QMutex\<close> is not
  recursive: locking it while the same thread holds it never returns, which the model
  reports as the error \<open>Deadlock\<close>. Closing a connection notifies the registry
  synchronously (the \<open>deviceDisconnected\<close> path that removes it from the registry), so
  \<open>close_device\<close> calls \<open>removeDevice\<close> back when the close emitted its notification.
\<close>

type_synonym dev_ref = nat

record devmgr =
  devices :: "dev_ref list"
  unregCt :: "32 word"
  closing :: bool
  dLock :: bool
  logLinks :: "dev_ref list"
  heap :: "dev_ref \<Rightarrow> remdev option"

datatype dm_error = Deadlock | DanglingDevice

text \<open>\<open>DevMgr::DevMgr\<close>: no device, counter at zero, not closing.\<close>

definition init_DevMgr :: "(dev_ref \<Rightarrow> remdev option) \<Rightarrow> devmgr" where
  "init_DevMgr h =
     \<lparr>devices = [], unregCt = 0, closing = False, dLock = False, logLinks = [], heap = h\<rparr>"

section \<open>The mutex\<close>

definition lock :: "devmgr \<Rightarrow> dm_error + devmgr" where
  "lock m = (if dLock m then Inl Deadlock else Inr (m\<lparr>dLock := True\<rparr>))"

definition unlock :: "devmgr \<Rightarrow> devmgr" where
  "unlock m = m\<lparr>dLock := False\<rparr>"

section \<open>Operations\<close>

text \<open>
  \<open>DevMgr::removeDevice\<close>: nothing while \<open>closeAll\<close> is running; otherwise the first
  occurrence of the pointer is removed under the lock.
\<close>

definition removeDevice :: "dev_ref \<Rightarrow> devmgr \<Rightarrow> dm_error + devmgr" where
  "removeDevice dev m =
     (if closing m then Inr m
      else case lock m of
             Inl e \<Rightarrow> Inl e
           | Inr m1 \<Rightarrow> Inr (unlock (m1\<lparr>devices := remove1 dev (devices m1)\<rparr>)))"

text \<open>
  \<open>DevMgr::addDevice\<close>: connect the device's log signal, append it under the lock, and
  return the provisional name \<open>Unknown<n>\<close> for the incremented counter (a C \<open>int\<close>).
\<close>

definition addDevice :: "dev_ref \<Rightarrow> devmgr \<Rightarrow> dm_error + qbytes \<times> devmgr" where
  "addDevice dev m =
     (let m1 = m\<lparr>logLinks := logLinks m @ [dev]\<rparr>
      in case lock m1 of
           Inl e \<Rightarrow> Inl e
         | Inr m2 \<Rightarrow>
             let m3 = unlock (m2\<lparr>devices := devices m2 @ [dev]\<rparr>);
                 ct = unregCt m3 + 1
             in Inr (''Unknown'' @ QString_number (sint ct), m3\<lparr>unregCt := ct\<rparr>))"

text \<open>
  \<open>devices.at(i)->close(reason)\<close> inside \<open>closeAll\<close>: \<open>RemDev::close\<close> with
  \<open>fromRemote = false\<close> on the connection the pointer refers to; if the close emitted the
  disconnect notification, the registry's \<open>removeDevice\<close> is called back.
\<close>

definition close_device :: "disconnect_reason \<Rightarrow> dev_ref \<Rightarrow> devmgr \<Rightarrow> dm_error + devmgr" where
  "close_device reason dev m =
     (case heap m dev of
        None \<Rightarrow> Inl DanglingDevice
      | Some d \<Rightarrow>
          let m1 = m\<lparr>heap := (heap m)(dev \<mapsto> close reason False d)\<rparr>
          in if closed d then Inr m1 else removeDevice dev m1)"

text \<open>The loop of \<open>closeAll\<close>, which rereads \<open>devices.size()\<close> on every iteration.\<close>

function closeAll_loop :: "disconnect_reason \<Rightarrow> nat \<Rightarrow> devmgr \<Rightarrow> dm_error + devmgr" where
  "closeAll_loop reason i m =
     (if i < length (devices m) then
        case close_device reason (devices m ! i) m of
          Inl e \<Rightarrow> Inl e
        | Inr m1 \<Rightarrow> closeAll_loop reason (Suc i) m1
      else Inr m)"
  by pat_completeness auto
termination
proof (relation "measure (\<lambda>(reason, i, m). length (devices m) - i)")
  fix reason i m m1
  assume i: "i < length (devices m)"
    and c: "close_device reason (devices m ! i) m = Inr m1"
  have "length (devices m1) \<le> length (devices m)"
    using c by (auto simp: close_device_def removeDevice_def lock_def unlock_def Let_def
                          length_remove1 split: option.splits if_splits)
  with i show "((reason, Suc i, m1), reason, i, m) \<in> measure (\<lambda>(reason, i, m). length (devices m) - i)"
    by simp
qed simp

declare closeAll_loop.simps [simp del]

text \<open>
  \<open>DevMgr::closeAll\<close>: raise \<open>closing\<close>, take the lock, close every device, clear the
  list, release the lock and lower \<open>closing\<close>.
\<close>

definition closeAll :: "disconnect_reason \<Rightarrow> devmgr \<Rightarrow> dm_error + devmgr" where
  "closeAll reason m =
     (case lock (m\<lparr>closing := True\<rparr>) of
        Inl e \<Rightarrow> Inl e
      | Inr m1 \<Rightarrow>
          (case closeAll_loop reason 0 m1 of
             Inl e \<Rightarrow> Inl e
           | Inr m2 \<Rightarrow> Inr ((unlock (m2\<lparr>devices := []\<rparr>))\<lparr>closing := False\<rparr>)))"

section \<open>Analysis functions\<close>

text \<open>The heap after \<open>devices.at(i)->close(reason)\<close> for one pointer.\<close>

definition close_in_heap ::
  "disconnect_reason \<Rightarrow> dev_ref \<Rightarrow> (dev_ref \<Rightarrow> remdev option) \<Rightarrow> dev_ref \<Rightarrow> remdev option" where
  "close_in_heap r x h = h(x \<mapsto> close r False (the (h x)))"

text \<open>A sequence of \<open>addDevice\<close> calls and the names they return.\<close>

fun addDevices :: "dev_ref list \<Rightarrow> devmgr \<Rightarrow> dm_error + qbytes list \<times> devmgr" where
  "addDevices [] m = Inr ([], m)"
| "addDevices (dev # ds) m =
     (case addDevice dev m of
        Inl e \<Rightarrow> Inl e
      | Inr (n, m1) \<Rightarrow>
          (case addDevices ds m1 of
             Inl e \<Rightarrow> Inl e
           | Inr (ns, m2) \<Rightarrow> Inr (n # ns, m2)))"

text \<open>
  A registry outside \<open>closeAll\<close> whose pointers are distinct and refer to open
  connections that keep the connection invariant.
\<close>

definition dm_ready :: "devmgr \<Rightarrow> bool" where
  "dm_ready m \<longleftrightarrow>
     \<not> closing m \<and> \<not> dLock m \<and> distinct (devices m) \<and>
     list_all (\<lambda>x. case heap m x of None \<Rightarrow> False | Some d \<Rightarrow> \<not> closed d \<and> conn_inv d) (devices m)"

section \<open>The close-all sweep\<close>

lemma close_device_closing:
  "closing m \<Longrightarrow> heap m dev = Some d \<Longrightarrow>
   close_device r dev m = Inr (m\<lparr>heap := (heap m)(dev \<mapsto> close r False d)\<rparr>)"
  by (simp add: close_device_def removeDevice_def Let_def)

text \<open>The heap after closing the connections of a list of pointers one by one.\<close>

lemma closeAll_loop_closing:
  assumes "closing m" and "\<forall>x \<in> set (drop i (devices m)). heap m x \<noteq> None"
  shows "closeAll_loop r i m =
           Inr (m\<lparr>heap := fold (close_in_heap r) (drop i (devices m)) (heap m)\<rparr>)"
  using assms
proof (induction r i m rule: closeAll_loop.induct)
  case (1 r i m)
  show ?case
  proof (cases "i < length (devices m)")
    case True
    have "devices m ! i \<in> set (drop i (devices m))"
      using True by (metis Cons_nth_drop_Suc list.set_intros(1))
    with 1(3) obtain d where d: "heap m (devices m ! i) = Some d" by blast
    let ?m1 = "m\<lparr>heap := close_in_heap r (devices m ! i) (heap m)\<rparr>"
    have c: "close_device r (devices m ! i) m = Inr ?m1"
      using close_device_closing [OF 1(2) d] d by (simp add: close_in_heap_def)
    have drop: "drop i (devices m) = devices m ! i # drop (Suc i) (devices m)"
      using True by (simp add: Cons_nth_drop_Suc)
    have "\<forall>x \<in> set (drop (Suc i) (devices ?m1)). heap ?m1 x \<noteq> None"
      using 1(3) by (simp add: drop close_in_heap_def)
    then have "closeAll_loop r (Suc i) ?m1 =
        Inr (?m1\<lparr>heap := fold (close_in_heap r) (drop (Suc i) (devices m)) (heap ?m1)\<rparr>)"
      using 1(1) [OF True c] 1(2) by simp
    with True c show ?thesis
      by (subst closeAll_loop.simps) (simp add: drop)
  next
    case False
    then show ?thesis by (subst closeAll_loop.simps) simp
  qed
qed

lemma fold_close_heap:
  assumes "distinct xs"
  shows "fold (close_in_heap r) xs h y =
           (if y \<in> set xs then Some (close r False (the (h y))) else h y)"
  using assms by (induction xs arbitrary: h) (auto simp: close_in_heap_def)

lemma closeAll_ready:
  assumes "dm_ready m"
  shows "closeAll r m =
           Inr (m\<lparr>devices := [], heap := fold (close_in_heap r) (devices m) (heap m)\<rparr>)"
proof -
  have l: "lock (m\<lparr>closing := True\<rparr>) = Inr (m\<lparr>closing := True, dLock := True\<rparr>)"
    using assms by (simp add: lock_def dm_ready_def)
  have "\<forall>x \<in> set (devices m). heap m x \<noteq> None"
    using assms by (auto simp: dm_ready_def list_all_iff split: option.splits)
  then have "closeAll_loop r 0 (m\<lparr>closing := True, dLock := True\<rparr>) =
     Inr (m\<lparr>closing := True, dLock := True,
            heap := fold (close_in_heap r) (devices m) (heap m)\<rparr>)"
    by (subst closeAll_loop_closing) simp_all
  with l assms show ?thesis by (simp add: closeAll_def unlock_def dm_ready_def)
qed

section \<open>Provisional names\<close>

lemma sint_int_max_succ: "sint (0x7FFFFFFF + 1 :: 32 word) = -2147483648"
  by simp

lemma names_shift:
  "map (\<lambda>k. f (c + int k)) [1..<Suc (Suc n)] = f (c + 1) # map (\<lambda>k. f (c + 1 + int k)) [1..<Suc n]"
proof -
  have "[1..<Suc (Suc n)] = 1 # map Suc [1..<Suc n]"
    by (simp add: upt_conv_Cons map_Suc_upt del: upt_Suc)
  then show ?thesis by (simp add: comp_def ac_simps del: upt_Suc)
qed

lemma addDevices_names:
  assumes "\<not> dLock m" and "sint (unregCt m) + int (length ds) < 2 ^ 31"
  shows "\<exists>m'. addDevices ds m =
           Inr (map (\<lambda>k. ''Unknown'' @ QString_number (sint (unregCt m) + int k)) [1..<Suc (length ds)], m') \<and>
         devices m' = devices m @ ds \<and> \<not> dLock m' \<and> sint (unregCt m') = sint (unregCt m) + int (length ds)"
  using assms
proof (induction ds arbitrary: m)
  case Nil
  then show ?case by simp
next
  case (Cons dev ds)
  have c: "sint (unregCt m + 1) = sint (unregCt m) + 1"
    using Cons.prems(2) by (intro sint_incr_32) simp
  define m1 where "m1 = (m\<lparr>logLinks := logLinks m @ [dev], devices := devices m @ [dev], unregCt := unregCt m + 1\<rparr>)"
  have a: "addDevice dev m = Inr (''Unknown'' @ QString_number (sint (unregCt m) + 1), m1)"
    using Cons.prems(1) c by (simp add: addDevice_def lock_def unlock_def m1_def)
  have "\<not> dLock m1" "sint (unregCt m1) + int (length ds) < 2 ^ 31"
    using Cons.prems c by (simp_all add: m1_def)
  then obtain m' where IH: "addDevices ds m1 =
      Inr (map (\<lambda>k. ''Unknown'' @ QString_number (sint (unregCt m1) + int k)) [1..<Suc (length ds)], m')"
      "devices m' = devices m1 @ ds" "\<not> dLock m'" "sint (unregCt m') = sint (unregCt m1) + int (length ds)"
    using Cons.IH by blast
  have "map (\<lambda>k. ''Unknown'' @ QString_number (sint (unregCt m) + int k)) [1..<Suc (length (dev # ds))] =
        (''Unknown'' @ QString_number (sint (unregCt m) + 1)) #
        map (\<lambda>k. ''Unknown'' @ QString_number (sint (unregCt m1) + int k)) [1..<Suc (length ds)]"
    using names_shift [of "\<lambda>i. ''Unknown'' @ QString_number i" "sint (unregCt m)" "length ds"]
    by (simp add: m1_def c)
  then show ?case
    using a IH c by (simp add: m1_def)
qed

section \<open>Properties of the registry\<close>

text \<open>
  C7: \<open>closeAll(reason)\<close> on a registry of distinct open connections succeeds
  (the close callbacks that re-enter \<open>removeDevice\<close> neither deadlock on the
  non-recursive mutex nor shorten the list being iterated), closes every registered
  connection with exactly one new notification \<open>(reason, fromRemote = false)\<close>, leaves
  every other connection untouched, and ends with an empty, unlocked registry.
\<close>

theorem closeAll_closes_every_device:
  assumes "dm_ready m"
  shows "\<exists>m'. closeAll r m = Inr m' \<and> devices m' = [] \<and> \<not> closing m' \<and> \<not> dLock m' \<and>
           (\<forall>x. x \<notin> set (devices m) \<longrightarrow> heap m' x = heap m x) \<and>
           (\<forall>x \<in> set (devices m). \<exists>d d'. heap m x = Some d \<and> heap m' x = Some d' \<and> closed d' \<and>
                                     disconnects d' = disconnects d @ [(r, False)])"
proof -
  have dist: "distinct (devices m)" and nc: "\<not> closing m" "\<not> dLock m"
    and open_devs: "\<forall>x \<in> set (devices m). \<exists>d. heap m x = Some d \<and> \<not> closed d"
    using assms by (auto simp: dm_ready_def list_all_iff split: option.splits)
  let ?h = "fold (close_in_heap r) (devices m) (heap m)"
  have "\<forall>x \<in> set (devices m). \<exists>d d'. heap m x = Some d \<and> ?h x = Some d' \<and> closed d' \<and>
          disconnects d' = disconnects d @ [(r, False)]"
    using open_devs by (auto simp: fold_close_heap [OF dist] close_disconnects)
  moreover have "\<forall>x. x \<notin> set (devices m) \<longrightarrow> ?h x = heap m x"
    by (simp add: fold_close_heap [OF dist])
  ultimately show ?thesis using closeAll_ready [OF assms, of r] nc by simp
qed

text \<open>
  Scenario: \<open>closeAll(ShuttingDown)\<close> on a registry with three live
  connections emits exactly three disconnect notifications, each tagged
  \<open>ShuttingDown\<close>, and leaves the registry empty.
\<close>

theorem closeAll_three_scenario:
  "let h = [1 \<mapsto> init_RemDev ''Unknown1'' True 4096 30000 1000,
            2 \<mapsto> init_RemDev ''Unknown2'' True 4096 30000 1000,
            3 \<mapsto> init_RemDev ''Unknown3'' True 4096 30000 1000];
       m = (init_DevMgr h)\<lparr>devices := [1, 2, 3]\<rparr>
   in case closeAll ShuttingDown m of
        Inl e \<Rightarrow> False
      | Inr m' \<Rightarrow> devices m' = [] \<and>
          concat (map (\<lambda>x. disconnects (the (heap m' x))) [1, 2, 3]) = replicate 3 (ShuttingDown, False)"
proof -
  define m where "m = (init_DevMgr [1 \<mapsto> init_RemDev ''Unknown1'' True 4096 30000 1000,
            2 \<mapsto> init_RemDev ''Unknown2'' True 4096 30000 1000,
            3 \<mapsto> init_RemDev ''Unknown3'' True 4096 30000 1000])\<lparr>devices := [1, 2, 3]\<rparr>"
  have o: "\<not> closed (init_RemDev n True 4096 30000 1000)" "disconnects (init_RemDev n True 4096 30000 1000) = []"
    for n by (simp_all add: init_RemDev_def)
  then have r: "dm_ready m"
    by (simp add: m_def dm_ready_def init_DevMgr_def conn_inv_init)
  show ?thesis unfolding Let_def m_def [symmetric]
    using closeAll_ready [OF r, of ShuttingDown] o
    by (simp add: m_def init_DevMgr_def close_in_heap_def close_disconnects numeral_3_eq_3)
qed

text \<open>
  C26: as long as the C \<open>int\<close> counter does not pass its maximum, successive
  \<open>addDevice\<close> calls append the devices in order and return the provisional names
  \<open>Unknown<n+1>\<close>, \<open>Unknown<n+2>\<close>, ..., which are pairwise distinct.
\<close>

theorem addDevice_provisional_names:
  assumes "\<not> dLock m" and "sint (unregCt m) + int (length ds) < 2 ^ 31"
  shows "\<exists>ns m'. addDevices ds m = Inr (ns, m') \<and> distinct ns \<and>
           ns = map (\<lambda>k. ''Unknown'' @ QString_number (sint (unregCt m) + int k)) [1..<Suc (length ds)] \<and>
           devices m' = devices m @ ds \<and> \<not> dLock m'"
proof -
  have "inj_on (\<lambda>k. ''Unknown'' @ QString_number (sint (unregCt m) + int k)) (set [1..<Suc (length ds)])"
    by (rule inj_onI) simp
  then have "distinct (map (\<lambda>k. ''Unknown'' @ QString_number (sint (unregCt m) + int k)) [1..<Suc (length ds)])"
    by (simp add: distinct_map)
  with addDevices_names [OF assms] show ?thesis by blast
qed

text \<open>
  After \<open>2^31 - 1\<close> provisional names the \<open>int\<close> counter wraps (undefined
  behaviour in C++; two's complement on the targets) and the next device is named
  \<open>Unknown-2147483648\<close>.
\<close>

theorem addDevice_counter_wraps:
  "case addDevice 7 ((init_DevMgr Map.empty)\<lparr>unregCt := 0x7FFFFFFF\<rparr>) of
     Inl e \<Rightarrow> False
   | Inr (n, m') \<Rightarrow> n = ''Unknown-2147483648'' \<and> devices m' = [7]"
  by (simp add: addDevice_def lock_def unlock_def init_DevMgr_def sint_int_max_succ QString_number_def)

section \<open>Witnesses\<close>

theorem closeAll_closes_every_device_witness:
  "let h = [1 \<mapsto> init_RemDev ''Unknown1'' True 4096 30000 1000,
            2 \<mapsto> init_RemDev ''Unknown2'' True 4096 30000 1000];
       m = (init_DevMgr h)\<lparr>devices := [1, 2]\<rparr>
   in dm_ready m \<and>
      (\<exists>m'. closeAll Restarting m = Inr m' \<and> devices m' = [] \<and>
            (\<exists>d'. heap m' 2 = Some d' \<and> closed d' \<and> disconnects d' = [(Restarting, False)]))"
proof -
  define m where "m = (init_DevMgr [1 \<mapsto> init_RemDev ''Unknown1'' True 4096 30000 1000,
            2 \<mapsto> init_RemDev ''Unknown2'' True 4096 30000 1000])\<lparr>devices := [1, 2]\<rparr>"
  have "\<not> closed (init_RemDev n True 4096 30000 1000)" for n by (simp add: init_RemDev_def)
  then have r: "dm_ready m"
    by (simp add: m_def dm_ready_def init_DevMgr_def conn_inv_init)
  have h2: "heap m 2 = Some (init_RemDev ''Unknown2'' True 4096 30000 1000)" "2 \<in> set (devices m)"
    by (simp_all add: m_def init_DevMgr_def)
  have "disconnects (init_RemDev ''Unknown2'' True 4096 30000 1000) = []"
    by (simp add: init_RemDev_def)
  then show ?thesis unfolding Let_def m_def [symmetric]
    using r h2 closeAll_closes_every_device [OF r, of Restarting] by fastforce
qed

theorem addDevice_provisional_names_witness:
  "\<not> dLock (init_DevMgr Map.empty) \<and> sint (unregCt (init_DevMgr Map.empty)) + int (length [4, 5, 6 :: nat]) < 2 ^ 31 \<and>
   (\<exists>m'. addDevices [4, 5, 6] (init_DevMgr Map.empty) = Inr ([''Unknown1'', ''Unknown2'', ''Unknown3''], m') \<and>
         devices m' = [4, 5, 6])"
proof -
  have h: "\<not> dLock (init_DevMgr Map.empty)" "sint (unregCt (init_DevMgr Map.empty)) + int (length [4, 5, 6 :: nat]) < 2 ^ 31"
    by (simp_all add: init_DevMgr_def)
  have n: "map (\<lambda>k. ''Unknown'' @ QString_number (sint (unregCt (init_DevMgr Map.empty)) + int k)) [1..<Suc (length [4, 5, 6 :: nat])] =
           [''Unknown1'', ''Unknown2'', ''Unknown3'']"
    by code_simp
  have d: "devices (init_DevMgr Map.empty) = []" by (simp add: init_DevMgr_def)
  show ?thesis using h n d addDevice_provisional_names [OF h] by auto
qed

end
