(* ===== verification/DevMgr_Threads.thy ===== *)
theory DevMgr_Threads
  imports DevMgr
begin

text \<open>
  The device registry under concurrency. \<open>DevMgr\<close> is the one object the test GUI
  touches from several threads: the shutdown path calls \<open>closeAll\<close>, connection
  threads call \<open>removeDevice\<close> (through \<open>deviceDisconnected\<close>) and the listener
  calls \<open>addDevice\<close>. Each thread is a continuation of the statements of
  \<open>src/DDX-testgui/devmgr.cpp\<close> it has still to execute (\<open>dm_act\<close>), one statement
  per step, and the \<open>QMutex\<close> is its owner thread: locking a mutex held by another
  thread blocks (no step), locking it again from its owner is \<open>Deadlock\<close>. The
  \<open>closing\<close> flag is read and written without the lock, as in the source. A schedule
  is a list of thread ids (\<open>run\<close>); \<open>dm_reach\<close> is every interleaving.
\<close>

type_synonym tid = nat

text \<open>
  The statements of \<open>closeAll\<close> (\<open>CloseLoop r i\<close> is the loop at index \<open>i\<close>: a
  device's \<open>close\<close> that emits the disconnect notification runs the callback
  \<open>removeDevice\<close> in the same thread, starting with its test of \<open>closing\<close>),
  of \<open>removeDevice\<close> and of \<open>addDevice\<close>.
\<close>

datatype dm_act =
    SetClosing bool
  | Lock
  | Unlock
  | CloseLoop disconnect_reason nat
  | ClearDevices
  | CheckClosing dev_ref
  | RemoveOne dev_ref
  | ConnectLog dev_ref
  | AppendDevice dev_ref
  | IncrUnreg

record dm_sys =
  mgr :: devmgr
  owner :: "tid option"
  prog :: "tid \<Rightarrow> dm_act list"

definition closeAll_prog :: "disconnect_reason \<Rightarrow> dm_act list" where
  "closeAll_prog r = [SetClosing True, Lock, CloseLoop r 0, ClearDevices, Unlock, SetClosing False]"

definition removeDevice_prog :: "dev_ref \<Rightarrow> dm_act list" where
  "removeDevice_prog d = [CheckClosing d]"

definition addDevice_prog :: "dev_ref \<Rightarrow> dm_act list" where
  "addDevice_prog d = [ConnectLog d, Lock, AppendDevice d, Unlock, IncrUnreg]"

definition continue :: "tid \<Rightarrow> dm_act list \<Rightarrow> dm_sys \<Rightarrow> dm_sys" where
  "continue t k S = S\<lparr>prog := (prog S)(t := k)\<rparr>"

fun exec :: "tid \<Rightarrow> dm_act \<Rightarrow> dm_act list \<Rightarrow> dm_sys \<Rightarrow> (dm_error + dm_sys) option" where
  "exec t (SetClosing b) rest S = Some (Inr (continue t rest (S\<lparr>mgr := (mgr S)\<lparr>closing := b\<rparr>\<rparr>)))"
| "exec t Lock rest S =
     (case owner S of
        None \<Rightarrow> Some (Inr (continue t rest (S\<lparr>mgr := (mgr S)\<lparr>dLock := True\<rparr>, owner := Some t\<rparr>)))
      | Some u \<Rightarrow> if u = t then Some (Inl Deadlock) else None)"
| "exec t Unlock rest S = Some (Inr (continue t rest (S\<lparr>mgr := unlock (mgr S), owner := None\<rparr>)))"
| "exec t (CloseLoop r i) rest S =
     (let m = mgr S
      in if i < length (devices m) then
           let dev = devices m ! i
           in case heap m dev of
                None \<Rightarrow> Some (Inl DanglingDevice)
              | Some d \<Rightarrow>
                  Some (Inr (continue t ((if closed d then [] else [CheckClosing dev]) @ CloseLoop r (Suc i) # rest)
                               (S\<lparr>mgr := m\<lparr>heap := (heap m)(dev \<mapsto> close r False d)\<rparr>\<rparr>)))
         else Some (Inr (continue t rest S)))"
| "exec t ClearDevices rest S = Some (Inr (continue t rest (S\<lparr>mgr := (mgr S)\<lparr>devices := []\<rparr>\<rparr>)))"
| "exec t (CheckClosing d) rest S =
     Some (Inr (continue t (if closing (mgr S) then rest else Lock # RemoveOne d # Unlock # rest) S))"
| "exec t (RemoveOne d) rest S =
     Some (Inr (continue t rest (S\<lparr>mgr := (mgr S)\<lparr>devices := remove1 d (devices (mgr S))\<rparr>\<rparr>)))"
| "exec t (ConnectLog d) rest S =
     Some (Inr (continue t rest (S\<lparr>mgr := (mgr S)\<lparr>logLinks := logLinks (mgr S) @ [d]\<rparr>\<rparr>)))"
| "exec t (AppendDevice d) rest S =
     Some (Inr (continue t rest (S\<lparr>mgr := (mgr S)\<lparr>devices := devices (mgr S) @ [d]\<rparr>\<rparr>)))"
| "exec t IncrUnreg rest S =
     Some (Inr (continue t rest (S\<lparr>mgr := (mgr S)\<lparr>unregCt := unregCt (mgr S) + 1\<rparr>\<rparr>)))"

definition dm_step :: "tid \<Rightarrow> dm_sys \<Rightarrow> (dm_error + dm_sys) option" where
  "dm_step t S = (case prog S t of [] \<Rightarrow> None | a # rest \<Rightarrow> exec t a rest S)"

fun run :: "tid list \<Rightarrow> dm_sys \<Rightarrow> (dm_error + dm_sys) option" where
  "run [] S = Some (Inr S)"
| "run (t # ts) S =
     (case dm_step t S of
        None \<Rightarrow> None
      | Some (Inl e) \<Rightarrow> Some (Inl e)
      | Some (Inr S') \<Rightarrow> run ts S')"

inductive dm_reach :: "dm_sys \<Rightarrow> dm_sys \<Rightarrow> bool" for S0 where
  refl: "dm_reach S0 S0"
| step: "dm_reach S0 S \<Longrightarrow> dm_step t S = Some (Inr S') \<Longrightarrow> dm_reach S0 S'"

text \<open>
  A start state: the registry unlocked and not closing, one thread \<open>c\<close> about to run
  \<open>closeAll\<close>, every other thread idle or about to call \<open>removeDevice\<close> or
  \<open>addDevice\<close> of a live device, and every registered device alive.
\<close>

definition dm_start :: "tid \<Rightarrow> dm_sys \<Rightarrow> bool" where
  "dm_start c S \<longleftrightarrow>
     owner S = None \<and> \<not> closing (mgr S) \<and> \<not> dLock (mgr S) \<and>
     (\<exists>r. prog S c = closeAll_prog r) \<and>
     (\<forall>t. t \<noteq> c \<longrightarrow> prog S t = [] \<or> (\<exists>d. prog S t = removeDevice_prog d) \<or>
                      (\<exists>d. prog S t = addDevice_prog d \<and> heap (mgr S) d \<noteq> None)) \<and>
     (\<forall>x \<in> set (devices (mgr S)). heap (mgr S) x \<noteq> None)"

text \<open>The program counters a thread can be at, and whether it then holds the mutex.\<close>

definition cl_free :: "dm_act list \<Rightarrow> bool" where
  "cl_free p \<longleftrightarrow> p = [] \<or> p = [SetClosing False] \<or>
     (\<exists>r. p = closeAll_prog r \<or> p = [Lock, CloseLoop r 0, ClearDevices, Unlock, SetClosing False])"

definition cl_holding :: "dm_act list \<Rightarrow> bool" where
  "cl_holding p \<longleftrightarrow> p = [ClearDevices, Unlock, SetClosing False] \<or> p = [Unlock, SetClosing False] \<or>
     (\<exists>r i. p = [CloseLoop r i, ClearDevices, Unlock, SetClosing False]) \<or>
     (\<exists>r i d. p = [CheckClosing d, CloseLoop r i, ClearDevices, Unlock, SetClosing False])"

definition cl_closing :: "dm_act list \<Rightarrow> bool" where
  "cl_closing p \<longleftrightarrow> cl_holding p \<or> (\<exists>r. p = [Lock, CloseLoop r 0, ClearDevices, Unlock, SetClosing False])"

definition wk_free :: "dm_act list \<Rightarrow> bool" where
  "wk_free p \<longleftrightarrow> p = [] \<or> p = [IncrUnreg] \<or>
     (\<exists>d. p = [CheckClosing d] \<or> p = [Lock, RemoveOne d, Unlock] \<or> p = addDevice_prog d \<or>
          p = [Lock, AppendDevice d, Unlock, IncrUnreg])"

definition wk_holding :: "dm_act list \<Rightarrow> bool" where
  "wk_holding p \<longleftrightarrow> p = [Unlock] \<or> p = [Unlock, IncrUnreg] \<or>
     (\<exists>d. p = [RemoveOne d, Unlock] \<or> p = [AppendDevice d, Unlock, IncrUnreg])"

definition dm_inv :: "tid \<Rightarrow> dm_sys \<Rightarrow> bool" where
  "dm_inv c S \<longleftrightarrow>
     (\<forall>t. t \<noteq> c \<longrightarrow> wk_free (prog S t) \<or> wk_holding (prog S t)) \<and>
     (cl_free (prog S c) \<or> cl_holding (prog S c)) \<and>
     (\<forall>t. owner S = Some t \<longleftrightarrow> (if t = c then cl_holding (prog S t) else wk_holding (prog S t))) \<and>
     (cl_closing (prog S c) \<longrightarrow> closing (mgr S)) \<and>
     (\<forall>x \<in> set (devices (mgr S)). heap (mgr S) x \<noteq> None) \<and>
     (\<forall>t d. AppendDevice d \<in> set (prog S t) \<longrightarrow> heap (mgr S) d \<noteq> None)"

text \<open>How a run of one thread ends compared with a result of the sequential model.\<close>

definition loop_outcome ::
  "tid \<Rightarrow> dm_sys \<Rightarrow> dm_act list \<Rightarrow> (dm_error + dm_sys) option \<Rightarrow> dm_error + devmgr \<Rightarrow> bool" where
  "loop_outcome c S rest res r =
     (case r of
        Inl e \<Rightarrow> res = Some (Inl e)
      | Inr m' \<Rightarrow> (\<exists>S'. res = Some (Inr S') \<and> mgr S' = m' \<and> prog S' = (prog S)(c := rest) \<and>
                          owner S' = owner S))"

section \<open>The invariant\<close>

lemma dm_start_inv:
  assumes "dm_start c S"
  shows "dm_inv c S"
proof -
  have app: "heap (mgr S) d \<noteq> None" if "AppendDevice d \<in> set (prog S t)" for t d
  proof (cases "t = c")
    case True
    then show ?thesis using assms that by (auto simp: dm_start_def closeAll_prog_def)
  next
    case False
    then show ?thesis using assms that
      by (auto simp: dm_start_def removeDevice_prog_def addDevice_prog_def dest!: spec [of _ t])
  qed
  with assms show ?thesis unfolding dm_start_def dm_inv_def
    by (auto simp: cl_free_def cl_holding_def cl_closing_def wk_free_def wk_holding_def
                   removeDevice_prog_def addDevice_prog_def closeAll_prog_def)
qed

lemma prog_continue [simp]: "prog (continue t k S) = (prog S)(t := k)"
  by (simp add: continue_def)

lemma mgr_continue [simp]: "mgr (continue t k S) = mgr S" "owner (continue t k S) = owner S"
  by (simp_all add: continue_def)

lemma dm_inv_step_closer:
  assumes inv: "dm_inv c S" and st: "dm_step c S = Some (Inr S')"
  shows "dm_inv c S'"
proof -
  from inv have "cl_free (prog S c) \<or> cl_holding (prog S c)" by (simp add: dm_inv_def)
  then consider (a) "prog S c = [SetClosing False]"
    | (b) r where "prog S c = closeAll_prog r"
    | (c) r where "prog S c = [Lock, CloseLoop r 0, ClearDevices, Unlock, SetClosing False]"
    | (d) "prog S c = [ClearDevices, Unlock, SetClosing False]"
    | (e) "prog S c = [Unlock, SetClosing False]"
    | (f) r i where "prog S c = [CloseLoop r i, ClearDevices, Unlock, SetClosing False]"
    | (g) r i d where "prog S c = [CheckClosing d, CloseLoop r i, ClearDevices, Unlock, SetClosing False]"
    | (h) "prog S c = []"
    unfolding cl_free_def cl_holding_def by blast
  then show ?thesis
  proof cases
    case a
    then show ?thesis using inv st
      by (auto simp: dm_inv_def dm_step_def cl_free_def cl_holding_def cl_closing_def split: if_splits)
  next
    case b
    then show ?thesis using inv st
      by (auto simp: dm_inv_def dm_step_def cl_free_def cl_holding_def cl_closing_def closeAll_prog_def split: if_splits)
  next
    case c
    then show ?thesis using inv st
      by (auto simp: dm_inv_def dm_step_def cl_free_def cl_holding_def cl_closing_def split: option.splits if_splits)
  next
    case d
    then show ?thesis using inv st
      by (auto simp: dm_inv_def dm_step_def cl_free_def cl_holding_def cl_closing_def split: if_splits)
  next
    case e
    have "owner S = Some c" using inv e by (simp add: dm_inv_def cl_holding_def)
    then have "\<not> wk_holding (prog S u)" if "u \<noteq> c" for u
      using inv that unfolding dm_inv_def by (metis option.inject)
    with e show ?thesis using inv st
      by (auto simp: dm_inv_def dm_step_def cl_free_def cl_holding_def cl_closing_def unlock_def split: if_splits)
  next
    case f
    then show ?thesis using inv st
      by (auto simp: dm_inv_def dm_step_def cl_free_def cl_holding_def cl_closing_def Let_def
               split: option.splits if_splits)
  next
    case g
    then show ?thesis using inv st
      by (auto simp: dm_inv_def dm_step_def cl_free_def cl_holding_def cl_closing_def split: if_splits)
  next
    case h
    then show ?thesis using st by (simp add: dm_step_def)
  qed
qed

lemma dm_inv_holder:
  assumes "dm_inv c S" and "owner S = Some u" and "t \<noteq> u"
  shows "if t = c then \<not> cl_holding (prog S t) else \<not> wk_holding (prog S t)"
  using assms unfolding dm_inv_def by (metis option.inject)

lemma dm_inv_no_holder:
  assumes "dm_inv c S" and "owner S = None"
  shows "if t = c then \<not> cl_holding (prog S t) else \<not> wk_holding (prog S t)"
  using assms unfolding dm_inv_def by (metis option.distinct(1))

lemma dm_inv_worker_update:
  assumes inv: "dm_inv c S" and tc: "t \<noteq> c"
    and shape: "wk_free k \<or> wk_holding k"
    and own: "\<forall>u. o' = Some u \<longleftrightarrow> (if u = c then cl_holding (prog S u) else if u = t then wk_holding k
                                   else wk_holding (prog S u))"
    and cl: "cl_closing (prog S c) \<longrightarrow> closing m'"
    and dev: "\<forall>x \<in> set (devices m'). heap m' x \<noteq> None"
    and app: "\<forall>d. AppendDevice d \<in> set k \<longrightarrow> heap m' d \<noteq> None"
    and app': "\<forall>u d. u \<noteq> t \<longrightarrow> AppendDevice d \<in> set (prog S u) \<longrightarrow> heap m' d \<noteq> None"
  shows "dm_inv c (continue t k (S\<lparr>mgr := m', owner := o'\<rparr>))"
  unfolding dm_inv_def
proof (intro conjI allI impI)
  fix u assume "u \<noteq> c"
  then show "wk_free (prog (continue t k (S\<lparr>mgr := m', owner := o'\<rparr>)) u) \<or>
             wk_holding (prog (continue t k (S\<lparr>mgr := m', owner := o'\<rparr>)) u)"
    using inv shape by (simp add: dm_inv_def)
next
  show "cl_free (prog (continue t k (S\<lparr>mgr := m', owner := o'\<rparr>)) c) \<or>
        cl_holding (prog (continue t k (S\<lparr>mgr := m', owner := o'\<rparr>)) c)"
    using inv tc by (simp add: dm_inv_def)
next
  fix u
  show "owner (continue t k (S\<lparr>mgr := m', owner := o'\<rparr>)) = Some u \<longleftrightarrow>
        (if u = c then cl_holding (prog (continue t k (S\<lparr>mgr := m', owner := o'\<rparr>)) u)
         else wk_holding (prog (continue t k (S\<lparr>mgr := m', owner := o'\<rparr>)) u))"
    using own tc by simp
next
  assume "cl_closing (prog (continue t k (S\<lparr>mgr := m', owner := o'\<rparr>)) c)"
  then show "closing (mgr (continue t k (S\<lparr>mgr := m', owner := o'\<rparr>)))" using cl tc by simp
next
  fix u d assume "AppendDevice d \<in> set (prog (continue t k (S\<lparr>mgr := m', owner := o'\<rparr>)) u)"
  then show "heap (mgr (continue t k (S\<lparr>mgr := m', owner := o'\<rparr>))) d \<noteq> None"
    using app app' by (cases "u = t") simp_all
qed (use dev in simp)

lemma dm_inv_owner_same:
  assumes "dm_inv c S" and "t \<noteq> c" and "wk_holding k = wk_holding (prog S t)"
  shows "\<forall>u. owner S = Some u \<longleftrightarrow> (if u = c then cl_holding (prog S u) else if u = t then wk_holding k
                                    else wk_holding (prog S u))"
proof
  fix u
  show "owner S = Some u \<longleftrightarrow> (if u = c then cl_holding (prog S u) else if u = t then wk_holding k
                              else wk_holding (prog S u))"
    using assms by (cases "u = t") (simp_all add: dm_inv_def)
qed

lemma dm_inv_owner_lock:
  assumes "dm_inv c S" and "owner S = None" and "t \<noteq> c" and "wk_holding k"
  shows "\<forall>u. Some t = Some u \<longleftrightarrow> (if u = c then cl_holding (prog S u) else if u = t then wk_holding k
                                 else wk_holding (prog S u))"
  using dm_inv_no_holder [OF assms(1,2)] assms(3,4) by (metis option.inject)

lemma dm_inv_owner_unlock:
  assumes "dm_inv c S" and "owner S = Some t" and "t \<noteq> c" and "\<not> wk_holding k"
  shows "\<forall>u. None = Some u \<longleftrightarrow> (if u = c then cl_holding (prog S u) else if u = t then wk_holding k
                              else wk_holding (prog S u))"
  using dm_inv_holder [OF assms(1,2)] assms(3,4) by (metis option.distinct(1))

lemma dm_inv_append:
  "dm_inv c S \<Longrightarrow> AppendDevice d \<in> set (prog S u) \<Longrightarrow> heap (mgr S) d \<noteq> None"
  unfolding dm_inv_def by blast

lemma dm_inv_worker_lock:
  assumes inv: "dm_inv c S" and tc: "t \<noteq> c" and pc: "prog S t = Lock # k" and hk: "wk_holding k"
    and app: "\<forall>d. AppendDevice d \<in> set k \<longrightarrow> heap (mgr S) d \<noteq> None"
    and st: "dm_step t S = Some (Inr S')"
  shows "dm_inv c S'"
proof -
  have o: "owner S = None"
  proof (cases "owner S")
    case (Some u)
    then show ?thesis using st pc by (simp add: dm_step_def split: if_splits)
  qed simp
  have "S' = continue t k (S\<lparr>mgr := (mgr S)\<lparr>dLock := True\<rparr>, owner := Some t\<rparr>)"
    using st pc o by (simp add: dm_step_def)
  moreover have "\<forall>u d. u \<noteq> t \<longrightarrow> AppendDevice d \<in> set (prog S u) \<longrightarrow> heap (mgr S) d \<noteq> None"
    using dm_inv_append [OF inv] by blast
  moreover have "cl_closing (prog S c) \<longrightarrow> closing (mgr S)"
    and "\<forall>x \<in> set (devices (mgr S)). heap (mgr S) x \<noteq> None" using inv by (simp_all add: dm_inv_def)
  ultimately show ?thesis using dm_inv_worker_update [OF inv tc _ dm_inv_owner_lock [OF inv o tc hk]] hk app
    by simp
qed

lemma dm_inv_worker_unlock:
  assumes inv: "dm_inv c S" and tc: "t \<noteq> c" and pc: "prog S t = Unlock # k" and hold: "wk_holding (prog S t)"
    and fk: "wk_free k" and hk: "\<not> wk_holding k" and nk: "\<forall>d. AppendDevice d \<notin> set k"
    and st: "dm_step t S = Some (Inr S')"
  shows "dm_inv c S'"
proof -
  have o: "owner S = Some t" using inv tc hold by (simp add: dm_inv_def)
  have "S' = continue t k (S\<lparr>mgr := unlock (mgr S), owner := None\<rparr>)"
    using st pc by (simp add: dm_step_def)
  moreover have "\<forall>u d. u \<noteq> t \<longrightarrow> AppendDevice d \<in> set (prog S u) \<longrightarrow> heap (mgr S) d \<noteq> None"
    using dm_inv_append [OF inv] by blast
  moreover have "cl_closing (prog S c) \<longrightarrow> closing (mgr S)"
    and "\<forall>x \<in> set (devices (mgr S)). heap (mgr S) x \<noteq> None" using inv by (simp_all add: dm_inv_def)
  ultimately show ?thesis using dm_inv_worker_update [OF inv tc _ dm_inv_owner_unlock [OF inv o tc hk]] fk nk
    by (simp add: unlock_def)
qed

lemma dm_inv_step_worker:
  assumes inv: "dm_inv c S" and tc: "t \<noteq> c" and st: "dm_step t S = Some (Inr S')"
  shows "dm_inv c S'"
proof -
  have dev: "\<forall>x \<in> set (devices (mgr S)). heap (mgr S) x \<noteq> None"
    and cl: "cl_closing (prog S c) \<longrightarrow> closing (mgr S)" using inv by (simp_all add: dm_inv_def)
  have app': "\<forall>u d. u \<noteq> t \<longrightarrow> AppendDevice d \<in> set (prog S u) \<longrightarrow> heap (mgr S) d \<noteq> None"
    using dm_inv_append [OF inv] by blast
  note upd = dm_inv_worker_update [OF inv tc]
  from inv tc have "wk_free (prog S t) \<or> wk_holding (prog S t)" by (simp add: dm_inv_def)
  then consider (incr) "prog S t = [IncrUnreg]"
    | (check) d where "prog S t = [CheckClosing d]"
    | (lock_rm) d where "prog S t = [Lock, RemoveOne d, Unlock]"
    | (log) d where "prog S t = addDevice_prog d"
    | (lock_add) d where "prog S t = [Lock, AppendDevice d, Unlock, IncrUnreg]"
    | (unlock) "prog S t = [Unlock]"
    | (unlock_incr) "prog S t = [Unlock, IncrUnreg]"
    | (rm) d where "prog S t = [RemoveOne d, Unlock]"
    | (add) d where "prog S t = [AppendDevice d, Unlock, IncrUnreg]"
    | (finished) "prog S t = []"
    unfolding wk_free_def wk_holding_def by blast
  then show ?thesis
  proof cases
    case incr
    then have "S' = continue t [] (S\<lparr>mgr := (mgr S)\<lparr>unregCt := unregCt (mgr S) + 1\<rparr>, owner := owner S\<rparr>)"
      using st by (simp add: dm_step_def)
    then show ?thesis using upd [OF _ dm_inv_owner_same [OF inv tc]] incr dev cl app'
      by (simp add: wk_free_def wk_holding_def)
  next
    case (check d)
    let ?k = "if closing (mgr S) then [] else [Lock, RemoveOne d, Unlock]"
    have S': "S' = continue t ?k S"
      using st check by (simp add: dm_step_def)
    have k: "wk_free ?k" "\<not> wk_holding ?k" by (auto simp: wk_free_def wk_holding_def)
    have "dm_inv c (continue t ?k (S\<lparr>mgr := mgr S, owner := owner S\<rparr>))"
      using k check dev cl app' dm_inv_owner_same [OF inv tc, of ?k]
      by (intro upd [where k = ?k and m' = "mgr S" and o' = "owner S"]) (simp_all add: wk_holding_def)
    then show ?thesis by (simp add: S')
  next
    case (lock_rm d)
    have "wk_holding [RemoveOne d, Unlock]" by (simp add: wk_holding_def)
    then show ?thesis using dm_inv_worker_lock [OF inv tc lock_rm _ _ st] by simp
  next
    case (log d)
    have "AppendDevice d \<in> set (prog S t)" using log by (simp add: addDevice_prog_def)
    then have hd: "heap (mgr S) d \<noteq> None" by (rule dm_inv_append [OF inv])
    have "S' = continue t [Lock, AppendDevice d, Unlock, IncrUnreg]
                 (S\<lparr>mgr := (mgr S)\<lparr>logLinks := logLinks (mgr S) @ [d]\<rparr>, owner := owner S\<rparr>)"
      using st log by (simp add: dm_step_def addDevice_prog_def)
    then show ?thesis using upd [OF _ dm_inv_owner_same [OF inv tc]] log dev cl app' hd
      by (simp add: wk_free_def wk_holding_def addDevice_prog_def)
  next
    case (lock_add d)
    have "AppendDevice d \<in> set (prog S t)" using lock_add by simp
    then have "heap (mgr S) d \<noteq> None" by (rule dm_inv_append [OF inv])
    moreover have "wk_holding [AppendDevice d, Unlock, IncrUnreg]" by (simp add: wk_holding_def)
    ultimately show ?thesis using dm_inv_worker_lock [OF inv tc lock_add _ _ st] by simp
  next
    case unlock
    have "wk_holding (prog S t)" "wk_free []" "\<not> wk_holding []"
      using unlock by (simp_all add: wk_free_def wk_holding_def)
    then show ?thesis using dm_inv_worker_unlock [OF inv tc unlock _ _ _ _ st] by simp
  next
    case unlock_incr
    have "wk_holding (prog S t)" "wk_free [IncrUnreg]" "\<not> wk_holding [IncrUnreg]"
      using unlock_incr by (simp_all add: wk_free_def wk_holding_def)
    then show ?thesis using dm_inv_worker_unlock [OF inv tc unlock_incr _ _ _ _ st] by simp
  next
    case (rm d)
    have "S' = continue t [Unlock] (S\<lparr>mgr := (mgr S)\<lparr>devices := remove1 d (devices (mgr S))\<rparr>, owner := owner S\<rparr>)"
      using st rm by (simp add: dm_step_def)
    moreover have "\<forall>x \<in> set (remove1 d (devices (mgr S))). heap (mgr S) x \<noteq> None"
      using dev by (meson notin_set_remove1)
    ultimately show ?thesis using upd [OF _ dm_inv_owner_same [OF inv tc]] rm cl app'
      by (simp add: wk_holding_def)
  next
    case (add d)
    have "AppendDevice d \<in> set (prog S t)" using add by simp
    then have hd: "heap (mgr S) d \<noteq> None" by (rule dm_inv_append [OF inv])
    have "S' = continue t [Unlock, IncrUnreg]
                 (S\<lparr>mgr := (mgr S)\<lparr>devices := devices (mgr S) @ [d]\<rparr>, owner := owner S\<rparr>)"
      using st add by (simp add: dm_step_def)
    then show ?thesis using upd [OF _ dm_inv_owner_same [OF inv tc]] add dev cl app' hd
      by (simp add: wk_holding_def)
  next
    case finished
    then show ?thesis using st by (simp add: dm_step_def)
  qed
qed

lemma dm_inv_step:
  "dm_inv c S \<Longrightarrow> dm_step t S = Some (Inr S') \<Longrightarrow> dm_inv c S'"
  by (cases "t = c") (auto intro: dm_inv_step_closer dm_inv_step_worker)

lemma dm_reach_inv:
  assumes "dm_start c S0" and "dm_reach S0 S"
  shows "dm_inv c S"
  using assms(2) by induction (auto intro: dm_start_inv [OF assms(1)] dm_inv_step)

lemma holding_head:
  "cl_holding p \<Longrightarrow> p \<noteq> [] \<and> hd p \<noteq> Lock" "wk_holding p \<Longrightarrow> p \<noteq> [] \<and> hd p \<noteq> Lock"
  by (auto simp: cl_holding_def wk_holding_def)

lemma dm_step_None:
  assumes "dm_step t S = None"
  shows "prog S t = [] \<or> (\<exists>rest u. prog S t = Lock # rest \<and> owner S = Some u \<and> u \<noteq> t)"
proof (cases "prog S t")
  case (Cons a rest)
  with assms show ?thesis
    by (cases a) (auto simp: dm_step_def Let_def split: option.splits if_splits)
qed simp

lemma dm_inv_no_error:
  assumes inv: "dm_inv c S"
  shows "dm_step t S \<noteq> Some (Inl e)"
proof (cases "prog S t")
  case (Cons a rest)
  show ?thesis
  proof (cases a)
    case Lock
    have "\<not> (if t = c then cl_holding (prog S t) else wk_holding (prog S t))"
      using holding_head [of "Lock # rest"] Cons Lock by auto
    then have "owner S \<noteq> Some t" using inv by (simp add: dm_inv_def)
    then show ?thesis using Cons Lock by (auto simp: dm_step_def split: option.splits)
  next
    case (CloseLoop r i)
    have "\<forall>x \<in> set (devices (mgr S)). heap (mgr S) x \<noteq> None" using inv by (simp add: dm_inv_def)
    then have "i < length (devices (mgr S)) \<Longrightarrow> heap (mgr S) (devices (mgr S) ! i) \<noteq> None"
      by (simp add: nth_mem)
    then show ?thesis using Cons CloseLoop by (auto simp: dm_step_def Let_def split: option.splits)
  qed (use Cons in \<open>simp_all add: dm_step_def\<close>)
qed (simp add: dm_step_def)

lemma dm_inv_progress:
  assumes inv: "dm_inv c S" and busy: "prog S t \<noteq> []"
  shows "\<exists>u S'. dm_step u S = Some (Inr S')"
proof (cases "dm_step t S")
  case (Some r)
  then show ?thesis using dm_inv_no_error [OF inv, of t] by (cases r) auto
next
  case None
  then obtain rest u where "prog S t = Lock # rest" and o: "owner S = Some u"
    using dm_step_None busy by blast
  moreover have "owner S = Some u \<longleftrightarrow> (if u = c then cl_holding (prog S u) else wk_holding (prog S u))"
    using inv by (simp add: dm_inv_def)
  ultimately have "if u = c then cl_holding (prog S u) else wk_holding (prog S u)" by simp
  then have "prog S u \<noteq> [] \<and> hd (prog S u) \<noteq> Lock" using holding_head by (auto split: if_splits)
  then have "dm_step u S \<noteq> None" using dm_step_None by fastforce
  then obtain r where "dm_step u S = Some r" by blast
  then show ?thesis using dm_inv_no_error [OF inv, of u] by (cases r) auto
qed

lemma fold_close_heap_other:
  "y \<notin> set xs \<Longrightarrow> fold (close_in_heap r) xs h y = h y"
  by (induction xs arbitrary: h) (simp_all add: close_in_heap_def)

lemma run_append:
  "run (xs @ ys) S = (case run xs S of Some (Inr S') \<Rightarrow> run ys S' | r \<Rightarrow> r)"
  by (induction xs arbitrary: S) (auto split: option.splits sum.splits)

lemma closeAll_loop_run:
  "closing m \<Longrightarrow> mgr S = m \<Longrightarrow> prog S c = CloseLoop r i # rest \<Longrightarrow>
   \<exists>n. loop_outcome c S rest (run (replicate n c) S) (closeAll_loop r i m)"
proof (induction r i m arbitrary: S rule: closeAll_loop.induct)
  case (1 r i m)
  show ?case
  proof (cases "i < length (devices m)")
    case False
    then have "run (replicate 1 c) S = Some (Inr (continue c rest S))"
      using 1 by (simp add: dm_step_def)
    then show ?thesis using False 1
      by (intro exI [of _ 1]) (simp add: closeAll_loop.simps loop_outcome_def)
  next
    case True
    let ?dev = "devices m ! i"
    show ?thesis
    proof (cases "heap m ?dev")
      case None
      then have "dm_step c S = Some (Inl DanglingDevice)" using 1 True by (simp add: dm_step_def)
      then have "run (replicate 1 c) S = Some (Inl DanglingDevice)" by simp
      moreover have "closeAll_loop r i m = Inl DanglingDevice"
        using True None by (simp add: closeAll_loop.simps close_device_def)
      ultimately show ?thesis by (intro exI [of _ 1]) (simp add: loop_outcome_def)
    next
      case (Some d)
      define m1 where "m1 = m\<lparr>heap := (heap m)(?dev \<mapsto> close r False d)\<rparr>"
      have cd: "close_device r ?dev m = Inr m1"
        using Some 1(2) by (simp add: close_device_def m1_def removeDevice_def Let_def)
      have loop: "closeAll_loop r i m = closeAll_loop r (Suc i) m1"
        using True cd by (simp add: closeAll_loop.simps)
      have cl1: "closing m1" using 1(2) by (simp add: m1_def)
      define S1 where "S1 = continue c ((if closed d then [] else [CheckClosing ?dev]) @ CloseLoop r (Suc i) # rest)
                                     (S\<lparr>mgr := m1\<rparr>)"
      have s1: "dm_step c S = Some (Inr S1)"
        using 1 True Some by (simp add: dm_step_def S1_def m1_def Let_def)
      define S2 where "S2 = continue c (CloseLoop r (Suc i) # rest) (S\<lparr>mgr := m1\<rparr>)"
      have s12: "run (replicate (if closed d then 1 else 2) c @ ns) S = run ns S2" for ns
        using s1 cl1 by (cases "closed d") (simp_all add: S1_def S2_def dm_step_def continue_def numeral_2_eq_2)
      have "mgr S2 = m1" "prog S2 c = CloseLoop r (Suc i) # rest" by (simp_all add: S2_def)
      from 1(1) [OF True cd cl1 this] obtain n where
        n: "loop_outcome c S2 rest (run (replicate n c) S2) (closeAll_loop r (Suc i) m1)" by blast
      show ?thesis
        using n s12 [of "replicate n c"] loop by (intro exI [of _ "(if closed d then 1 else 2) + n"])
           (simp add: replicate_add loop_outcome_def S2_def split: sum.splits)
    qed
  qed
qed


text \<open>
  C13: with a single thread running \<open>closeAll\<close>, any number of threads calling
  \<open>removeDevice\<close> or \<open>addDevice\<close>, and every registered or added device alive, no
  interleaving reaches an error (no thread re-locks the mutex it holds and no loop step
  finds a dangling device), and the system is never stuck: while a thread has work left,
  some thread can take a step.
\<close>

theorem closeAll_concurrent_safe:
  assumes "dm_start c S0" and "dm_reach S0 S"
  shows "(\<forall>t e. dm_step t S \<noteq> Some (Inl e)) \<and>
         ((\<exists>t. prog S t \<noteq> []) \<longrightarrow> (\<exists>t S'. dm_step t S = Some (Inr S')))"
  using dm_reach_inv [OF assms] dm_inv_no_error dm_inv_progress by blast

text \<open>
  C24: \<open>closing\<close> is a flag, not a count. For every registry that is unlocked, not
  closing and holds only live devices, two threads in \<open>closeAll\<close> and one adding an
  open device not yet registered have an interleaving that deadlocks: the first closer
  finishes its sweep and lowers \<open>closing\<close> while the second holds the mutex, so the
  second closer's own disconnect callback \<open>removeDevice\<close> locks it again.
\<close>

theorem two_closers_deadlock:
  assumes tids: "c1 \<noteq> c2" "a \<noteq> c1" "a \<noteq> c2"
    and m: "\<not> closing m" "\<not> dLock m" "\<forall>x \<in> set (devices m). heap m x \<noteq> None"
    and d: "heap m d = Some dv" "\<not> closed dv" "d \<notin> set (devices m)"
  shows "\<exists>ts. run ts \<lparr>mgr = m, owner = None,
                      prog = (\<lambda>t. if t = c1 \<or> t = c2 then closeAll_prog r
                                 else if t = a then addDevice_prog d else [])\<rparr> = Some (Inl Deadlock)"
proof -
  define S0 where "S0 = \<lparr>mgr = m, owner = None,
                      prog = (\<lambda>t. if t = c1 \<or> t = c2 then closeAll_prog r
                                 else if t = a then addDevice_prog d else [])\<rparr>"
  define m3 where "m3 = m\<lparr>closing := True, dLock := True\<rparr>"
  define tail where "tail = [ClearDevices, Unlock, SetClosing False]"
  define S3 where "S3 = \<lparr>mgr = m3, owner = Some c1,
                      prog = (prog S0)(c1 := CloseLoop r 0 # tail, c2 := tl (closeAll_prog r))\<rparr>"
  have s3: "run ([c1, c2, c1] @ ns) S0 = run ns S3" for ns
    using tids by (simp add: S0_def S3_def m3_def tail_def dm_step_def closeAll_prog_def continue_def
                             fun_upd_twist)
  have "closing m3" "mgr S3 = m3" "prog S3 c1 = CloseLoop r 0 # tail"
    using tids by (simp_all add: m3_def S3_def)
  from closeAll_loop_run [OF this] obtain n where
    n: "loop_outcome c1 S3 tail (run (replicate n c1) S3) (closeAll_loop r 0 m3)" by blast
  have "closeAll_loop r 0 m3 = Inr (m3\<lparr>heap := fold (close_in_heap r) (devices m) (heap m)\<rparr>)"
    using m by (subst closeAll_loop_closing) (simp_all add: m3_def)
  with n obtain S4 where r4: "run (replicate n c1) S3 = Some (Inr S4)"
    and S4: "mgr S4 = m3\<lparr>heap := fold (close_in_heap r) (devices m) (heap m)\<rparr>"
            "prog S4 = (prog S3)(c1 := tail)" "owner S4 = owner S3"
    by (auto simp: loop_outcome_def)
  have hd: "fold (close_in_heap r) (devices m) (heap m) d = Some dv"
    using d fold_close_heap_other [of d "devices m" r "heap m"] by simp
  have "run ([c1, c1, a, a, a, a, c2, c1, c2, c2, c2]) S4 = Some (Inl Deadlock)"
    using tids S4 hd d
    by (simp add: S3_def S0_def m3_def tail_def dm_step_def closeAll_prog_def addDevice_prog_def
                  continue_def unlock_def)
  then have "run ([c1, c2, c1] @ replicate n c1 @ [c1, c1, a, a, a, a, c2, c1, c2, c2, c2]) S0 = Some (Inl Deadlock)"
    using s3 r4 by (simp add: run_append)
  then show ?thesis unfolding S0_def by blast
qed

section \<open>Witnesses\<close>

theorem closeAll_concurrent_safe_witness:
  "let S0 = \<lparr>mgr = (init_DevMgr (\<lambda>x. if x = 5 \<or> x = 6 then Some (init_RemDev ''Unknown1'' True 4096 30000 1000)
                                  else None))\<lparr>devices := [5]\<rparr>,
             owner = None,
             prog = (\<lambda>t. if t = 0 then closeAll_prog ShuttingDown else if t = 1 then removeDevice_prog 5
                         else if t = 2 then addDevice_prog 6 else [])\<rparr>;
       S1 = projr (the (dm_step 1 S0));
       S2 = projr (the (dm_step 0 S1))
   in dm_start 0 S0 \<and> dm_reach S0 S2 \<and> (\<forall>t e. dm_step t S2 \<noteq> Some (Inl e)) \<and>
      ((\<exists>t. prog S2 t \<noteq> []) \<longrightarrow> (\<exists>t S'. dm_step t S2 = Some (Inr S')))"
proof -
  define S0 where "S0 = \<lparr>mgr = (init_DevMgr (\<lambda>x. if x = 5 \<or> x = 6 then Some (init_RemDev ''Unknown1'' True 4096 30000 1000)
                                  else None))\<lparr>devices := [5]\<rparr>,
             owner = None,
             prog = (\<lambda>t. if t = 0 then closeAll_prog ShuttingDown else if t = (1::nat) then removeDevice_prog 5
                         else if t = 2 then addDevice_prog 6 else [])\<rparr>"
  define S1 where "S1 = projr (the (dm_step 1 S0))"
  define S2 where "S2 = projr (the (dm_step 0 S1))"
  have st: "dm_start 0 S0"
    by (auto simp: dm_start_def S0_def init_DevMgr_def removeDevice_prog_def addDevice_prog_def)
  have s1: "dm_step 1 S0 = Some (Inr S1)"
    by (simp add: S1_def S0_def dm_step_def removeDevice_prog_def init_DevMgr_def continue_def)
  have s2: "dm_step 0 S1 = Some (Inr S2)"
    by (simp add: S2_def S1_def S0_def dm_step_def removeDevice_prog_def closeAll_prog_def
                  init_DevMgr_def continue_def)
  have r: "dm_reach S0 S2"
    by (rule dm_reach.step [OF dm_reach.step [OF dm_reach.refl s1] s2])
  show ?thesis unfolding Let_def S0_def [symmetric] S1_def [symmetric] S2_def [symmetric]
    using st r closeAll_concurrent_safe [OF st r] by blast
qed


theorem two_closers_deadlock_witness:
  "let m = init_DevMgr (\<lambda>x. if x = 5 then Some (init_RemDev ''Unknown1'' True 4096 30000 1000) else None)
   in (0::nat) \<noteq> 1 \<and> (2::nat) \<noteq> 0 \<and> (2::nat) \<noteq> 1 \<and>
      \<not> closing m \<and> \<not> dLock m \<and> (\<forall>x \<in> set (devices m). heap m x \<noteq> None) \<and>
      heap m 5 = Some (init_RemDev ''Unknown1'' True 4096 30000 1000) \<and>
      \<not> closed (init_RemDev ''Unknown1'' True 4096 30000 1000) \<and> 5 \<notin> set (devices m) \<and>
      (\<exists>ts. run ts \<lparr>mgr = m, owner = None,
                      prog = (\<lambda>t. if t = 0 \<or> t = 1 then closeAll_prog ShuttingDown
                                 else if t = 2 then addDevice_prog 5 else [])\<rparr> = Some (Inl Deadlock))"
proof -
  define m where "m = init_DevMgr (\<lambda>x. if x = 5 then Some (init_RemDev ''Unknown1'' True 4096 30000 1000) else None)"
  have t: "(0::nat) \<noteq> 1" "(2::nat) \<noteq> 0" "(2::nat) \<noteq> 1" by simp_all
  have h: "\<not> closing m" "\<not> dLock m" "\<forall>x \<in> set (devices m). heap m x \<noteq> None"
    "heap m 5 = Some (init_RemDev ''Unknown1'' True 4096 30000 1000)"
    "\<not> closed (init_RemDev ''Unknown1'' True 4096 30000 1000)" "5 \<notin> set (devices m)"
    by (simp_all add: m_def init_DevMgr_def init_RemDev_def)
  show ?thesis unfolding Let_def m_def [symmetric]
    using t h two_closers_deadlock [OF t h, of ShuttingDown] by blast
qed

end
