(* ===== verification/MainWindow.thy ===== *)
theory MainWindow
  imports DevMgr
begin

text \<open>
  The shell of the test GUI, class \<open>MainWindow\<close> of \<open>src/DDX-testgui/mainwindow.h\<close>,
  as far as the repository defines it: its three members and the inline accessor
  \<open>getLogArea\<close>. The constructor, destructor and the slot \<open>newTestDevice\<close> are
  defined in \<open>mainwindow.cpp\<close>, which is not in the repository. The log area is the
  list of lines appended to the \<open>QPlainTextEdit\<close>; it is where \<open>DevMgr\<close>'s
  constructor reports and where every device's \<open>postToLogArea\<close> signal is delivered,
  once per connection \<open>DevMgr::addDevice\<close> made.
\<close>

record main_window =
  logArea :: "string list"
  mw_dm :: devmgr
  td :: "dev_ref option"

definition getLogArea :: "main_window \<Rightarrow> string list" where
  "getLogArea w = logArea w"

text \<open>
  \<open>DevMgr::DevMgr(MainWindow*)\<close> with its effect on the window: the registry is
  created and the line \<open>Testing: %1\<close> is appended, the argument being
  \<open>QMetaType::isRegistered\<close> of the type just registered (true, printed through
  \<open>arg(int)\<close> as 1).
\<close>

definition DevMgr_new :: "(dev_ref \<Rightarrow> remdev option) \<Rightarrow> main_window \<Rightarrow> main_window" where
  "DevMgr_new h w =
     w\<lparr>mw_dm := init_DevMgr h, logArea := getLogArea w @ [''Testing: '' @ QString_number 1]\<rparr>"

text \<open>
  A device's \<open>postToLogArea(msg)\<close>: \<open>appendPlainText\<close> runs once for every
  \<open>connect\<close> that \<open>addDevice\<close> made for that device (Qt does not merge duplicate
  connections).
\<close>

definition postToLogArea :: "dev_ref \<Rightarrow> string \<Rightarrow> main_window \<Rightarrow> main_window" where
  "postToLogArea dev msg w =
     w\<lparr>logArea := getLogArea w @ replicate (count_list (logLinks (mw_dm w)) dev) msg\<rparr>"

lemma addDevice_logLinks:
  "addDevice dev m = Inr (n, m') \<Longrightarrow> logLinks m' = logLinks m @ [dev]"
  by (auto simp: addDevice_def lock_def unlock_def Let_def split: if_splits)

lemma addDevices_logLinks:
  "addDevices ds m = Inr (ns, m') \<Longrightarrow> logLinks m' = logLinks m @ ds"
proof (induction ds arbitrary: m ns)
  case (Cons d ds)
  then show ?case
    by (auto simp: addDevice_logLinks split: sum.splits prod.splits)
qed simp

text \<open>
  After the registry is created on a window and the devices \<open>ds\<close> are added, the lines
  a device posts reach the log area after the constructor's line, each as many times
  as the device was added: never for a device that was not added, twice for one added
  twice.
\<close>

lemma log_area_after_addDevices:
  assumes "addDevices ds (mw_dm (DevMgr_new h w)) = Inr (ns, m')"
  shows "getLogArea (fold (\<lambda>msg. postToLogArea dev msg) msgs ((DevMgr_new h w)\<lparr>mw_dm := m'\<rparr>)) =
           getLogArea w @ [''Testing: 1''] @ concat (map (replicate (count_list ds dev)) msgs)"
proof -
  have l: "logLinks m' = ds"
    using addDevices_logLinks [OF assms] by (simp add: DevMgr_new_def init_DevMgr_def)
  have "getLogArea (fold (\<lambda>msg. postToLogArea dev msg) msgs v) =
          getLogArea v @ concat (map (replicate (count_list (logLinks (mw_dm v)) dev)) msgs)" for v
    by (induction msgs arbitrary: v) (simp_all add: postToLogArea_def getLogArea_def)
  then show ?thesis
    using l by (simp add: DevMgr_new_def getLogArea_def QString_number_def nat_digits.simps digit_char_digits)
qed

end
