(* ===== verification/NetDev.thy ===== *)
theory NetDev
  imports Connection Qt_Text
begin

text \<open>
  The transport adapter of the test GUI, class \<open>NetDev\<close> of
  \<open>src/DDX-testgui/netdev.cpp\<close>: a \<open>RemDev\<close> bound to a \<open>QSslSocket\<close>. The socket
  is a record of what the code reads and sets (state, peer address, encryption, the
  read buffer, the bytes written, the two socket options, the calls
  \<open>startServerEncryption\<close>, \<open>disconnectFromHost\<close> and \<open>deleteLater\<close>). The state
  of a \<open>NetDev\<close> is the \<open>RemDev\<close> part (theory \<open>Connection\<close>), the socket pointer
  \<open>s\<close> (\<open>None\<close> is the null pointer of the constructors) and the constructor
  arguments. \<open>RemDev\<close> calls the virtual hooks \<open>writeItem\<close> (once per frame it
  sends) and \<open>terminate\<close> (once, when it closes); \<open>hooks\<close> runs them for what a
  \<open>RemDev\<close> operation did, and \<open>rd_apply\<close> lifts the operation to a \<open>NetDev\<close>.
  The JSON text layer is a parameter: \<open>ser\<close> serialises a frame (RapidJSON's writer)
  and \<open>parse\<close> parses a line (RapidJSON's in-situ reader); both are library code.
  \<open>deleteLater\<close> only schedules: the event \<open>DeferredDelete\<close> of the event loop
  (\<open>nd_step\<close>) frees the socket or the \<open>NetDev\<close>, after which reaching the socket
  is the error \<open>DanglingSocket\<close>. The socket's signals reach the slots only once
  \<open>sub_init\<close> has connected them (\<open>ready\<close>).
\<close>

section \<open>Qt socket vocabulary\<close>

datatype socket_state =
    UnconnectedState | HostLookupState | ConnectingState | ConnectedState | BoundState
  | ListeningState | ClosingState

datatype network_protocol = IPv4Protocol | IPv6Protocol | AnyIPProtocol | UnknownNetworkLayerProtocol

datatype host_address = NullAddress | IPv4Address "32 word" | IPv6Address "128 word"

primrec protocol :: "host_address \<Rightarrow> network_protocol" where
  "protocol NullAddress = UnknownNetworkLayerProtocol"
| "protocol (IPv4Address a) = IPv4Protocol"
| "protocol (IPv6Address a) = IPv6Protocol"

definition LocalHost :: host_address where "LocalHost = IPv4Address 0x7F000001"
definition LocalHostIPv6 :: host_address where "LocalHostIPv6 = IPv6Address 1"

datatype socket_error =
    ConnectionRefusedError | RemoteHostClosedError | HostNotFoundError | SocketAccessError
  | SocketResourceError | SocketTimeoutError | DatagramTooLargeError | NetworkError
  | AddressInUseError | SocketAddressNotAvailableError | UnsupportedSocketOperationError
  | UnfinishedSocketOperationError | ProxyAuthenticationRequiredError | SslHandshakeFailedError
  | ProxyConnectionRefusedError | ProxyConnectionClosedError | ProxyConnectionTimeoutError
  | ProxyNotFoundError | ProxyProtocolError | OperationError | SslInternalError
  | SslInvalidUserDataError | TemporaryError | UnknownSocketError

text \<open>The enumerators' values, which \<open>QString::arg\<close> prints.\<close>

primrec socket_error_code :: "socket_error \<Rightarrow> int" where
  "socket_error_code ConnectionRefusedError = 0"
| "socket_error_code RemoteHostClosedError = 1"
| "socket_error_code HostNotFoundError = 2"
| "socket_error_code SocketAccessError = 3"
| "socket_error_code SocketResourceError = 4"
| "socket_error_code SocketTimeoutError = 5"
| "socket_error_code DatagramTooLargeError = 6"
| "socket_error_code NetworkError = 7"
| "socket_error_code AddressInUseError = 8"
| "socket_error_code SocketAddressNotAvailableError = 9"
| "socket_error_code UnsupportedSocketOperationError = 10"
| "socket_error_code UnfinishedSocketOperationError = 11"
| "socket_error_code ProxyAuthenticationRequiredError = 12"
| "socket_error_code SslHandshakeFailedError = 13"
| "socket_error_code ProxyConnectionRefusedError = 14"
| "socket_error_code ProxyConnectionClosedError = 15"
| "socket_error_code ProxyConnectionTimeoutError = 16"
| "socket_error_code ProxyNotFoundError = 17"
| "socket_error_code ProxyProtocolError = 18"
| "socket_error_code OperationError = 19"
| "socket_error_code SslInternalError = 20"
| "socket_error_code SslInvalidUserDataError = 21"
| "socket_error_code TemporaryError = 22"
| "socket_error_code UnknownSocketError = -1"

record qsslsocket =
  sk_state :: socket_state
  peerAddress :: host_address
  sk_encrypted :: bool
  rbuf :: string
  wbuf :: string
  lowDelay :: bool
  keepAlive :: bool
  serverEncryption :: bool
  disconnectCalled :: bool
  sk_deleteLater :: bool
  sk_freed :: bool

definition new_QSslSocket :: qsslsocket where
  "new_QSslSocket =
     \<lparr>sk_state = UnconnectedState, peerAddress = NullAddress, sk_encrypted = False, rbuf = [],
      wbuf = [], lowDelay = False, keepAlive = False, serverEncryption = False,
      disconnectCalled = False, sk_deleteLater = False, sk_freed = False\<rparr>"

section \<open>State\<close>

record netdev =
  rd :: remdev
  s :: "qsslsocket option"
  descriptor :: nat
  hostName :: string
  port :: "16 word"
  nd_protocol :: network_protocol
  ready :: bool
  deleteLaterSelf :: bool
  nd_deleted :: bool

datatype nd_error = NullSocket | DanglingSocket | NetDevDeleted

text \<open>The two constructors: an accepted socket descriptor, or an outgoing connection.\<close>

definition NetDev_inbound :: "remdev \<Rightarrow> nat \<Rightarrow> netdev" where
  "NetDev_inbound d socketDescriptor =
     \<lparr>rd = d, s = None, descriptor = socketDescriptor, hostName = [], port = 0,
      nd_protocol = UnknownNetworkLayerProtocol, ready = False, deleteLaterSelf = False,
      nd_deleted = False\<rparr>"

definition NetDev_outbound :: "remdev \<Rightarrow> string \<Rightarrow> 16 word \<Rightarrow> network_protocol \<Rightarrow> netdev" where
  "NetDev_outbound d host p prot =
     \<lparr>rd = d, s = None, descriptor = 0, hostName = host, port = p, nd_protocol = prot,
      ready = False, deleteLaterSelf = False, nd_deleted = False\<rparr>"

text \<open>What the operating system answers while \<open>sub_init\<close> sets the socket up.\<close>

record socket_env =
  descriptorAccepted :: bool
  env_state :: socket_state
  env_peer :: host_address
  env_peer_text :: string

section \<open>Initialisation (NetDev::sub_init)\<close>

text \<open>
  The part common to both directions: the peer is local when it is the loopback
  address of its own protocol; \<open>LowDelayOption\<close> is always set and \<open>KeepAliveOption\<close>
  only for a non-local peer; then \<open>connectionReady()\<close>.
\<close>

definition configure_socket :: "qsslsocket \<Rightarrow> netdev \<Rightarrow> netdev" where
  "configure_socket sk nd =
     (let usingIPv6 = (protocol (peerAddress sk) = IPv6Protocol);
          localhost = (if usingIPv6 then LocalHostIPv6 else LocalHost);
          isLocal = (peerAddress sk = localhost);
          sk1 = sk\<lparr>lowDelay := True\<rparr>;
          sk2 = (if \<not> isLocal then sk1\<lparr>keepAlive := True\<rparr> else sk1)
      in nd\<lparr>s := Some sk2, ready := True\<rparr>)"

text \<open>
  An inbound \<open>NetDev\<close> adopts its descriptor; if that fails it logs and schedules its
  own deletion; if the socket is not connected it schedules the socket's deletion and
  returns (the pointer \<open>s\<close> is kept); otherwise it starts the server side of the TLS
  handshake and logs the peer. The outbound branch is empty in the source: the socket
  is configured without ever being connected.
\<close>

definition sub_init :: "socket_env \<Rightarrow> netdev \<Rightarrow> netdev" where
  "sub_init env nd =
     (let sk = new_QSslSocket
      in if descriptor nd \<noteq> 0 then
           if \<not> descriptorAccepted env
           then nd\<lparr>s := Some sk, rd := log ''Could not '' (rd nd), deleteLaterSelf := True\<rparr>
           else let sk1 = sk\<lparr>sk_state := env_state env, peerAddress := env_peer env\<rparr>
                in if env_state env \<noteq> ConnectedState
                   then nd\<lparr>s := Some (sk1\<lparr>sk_deleteLater := True\<rparr>)\<rparr>
                   else configure_socket (sk1\<lparr>serverEncryption := True\<rparr>)
                          (nd\<lparr>rd := log (''Received new connection from '' @ env_peer_text env) (rd nd)\<rparr>)
         else configure_socket sk nd)"

section \<open>The hooks RemDev calls\<close>

text \<open>\<open>NetDev::writeItem\<close>: the serialised frame is written to the socket.\<close>

definition writeItem :: "string \<Rightarrow> qsslsocket \<Rightarrow> qsslsocket" where
  "writeItem buffer sk = sk\<lparr>wbuf := wbuf sk @ buffer\<rparr>"

text \<open>\<open>NetDev::terminate\<close>: \<open>disconnectFromHost\<close>; a connected socket starts closing.\<close>

definition terminate :: "disconnect_reason \<Rightarrow> bool \<Rightarrow> qsslsocket \<Rightarrow> qsslsocket" where
  "terminate reason fromRemote sk =
     sk\<lparr>disconnectCalled := True,
        sk_state := (if sk_state sk = ConnectedState then ClosingState else sk_state sk)\<rparr>"

text \<open>
  The hooks a \<open>RemDev\<close> operation taking \<open>d\<close> to \<open>d'\<close> invoked: \<open>writeItem\<close> for each
  frame it sent, in order, and \<open>terminate\<close> if it closed the connection.
\<close>

definition hooks :: "(message \<Rightarrow> string) \<Rightarrow> remdev \<Rightarrow> remdev \<Rightarrow> qsslsocket \<Rightarrow> qsslsocket" where
  "hooks ser d d' sk =
     (let sk1 = fold (\<lambda>m. writeItem (ser m)) (drop (length (wire d)) (wire d')) sk
      in if \<not> terminated d \<and> terminated d'
         then terminate (fst (last (disconnects d'))) (snd (last (disconnects d'))) sk1
         else sk1)"

text \<open>Whether an operation from \<open>d\<close> to \<open>d'\<close> calls into the socket at all.\<close>

definition touches_socket :: "remdev \<Rightarrow> remdev \<Rightarrow> bool" where
  "touches_socket d d' \<longleftrightarrow> drop (length (wire d)) (wire d') \<noteq> [] \<or> (\<not> terminated d \<and> terminated d')"

text \<open>
  A \<open>RemDev\<close> operation on the adapter: the hooks run on the socket \<open>s\<close> points to.
  When that socket has already been freed by the event loop, an operation that writes to
  it or disconnects it dereferences a dangling pointer.
\<close>

definition rd_apply :: "(message \<Rightarrow> string) \<Rightarrow> (remdev \<Rightarrow> remdev) \<Rightarrow> netdev \<Rightarrow> nd_error + netdev" where
  "rd_apply ser f nd =
     (case s nd of
        None \<Rightarrow> Inl NullSocket
      | Some sk \<Rightarrow>
          let d' = f (rd nd)
          in if sk_freed sk \<and> touches_socket (rd nd) d' then Inl DanglingSocket
             else Inr (nd\<lparr>rd := d', s := Some (hooks ser (rd nd) d' sk)\<rparr>))"

section \<open>Slots\<close>

text \<open>
  The loop of \<open>NetDev::handleData\<close>: while a complete line is buffered, read it into a
  buffer of \<open>bytesAvailable() + 1\<close> bytes and, when something was read, hand it to
  \<open>RemDev::handleItem\<close>.
\<close>

function readLines ::
  "(message \<Rightarrow> string) \<Rightarrow> (string \<Rightarrow> jvalue option) \<Rightarrow> string \<Rightarrow> remdev \<times> qsslsocket
   \<Rightarrow> string \<times> remdev \<times> qsslsocket" where
  "readLines ser parse buf (d, sk) =
     (if canReadLine buf then
        let size = length buf + 1; (line, rest) = readLine_max size buf; amount = length line
        in if 0 < amount
           then let d' = handleItem amount (parse line) d in readLines ser parse rest (d', hooks ser d d' sk)
           else readLines ser parse rest (d, sk)
      else (buf, d, sk))"
  by pat_completeness auto
termination
  by (relation "measure (\<lambda>(ser, parse, buf, _). length buf)")
     (auto, (metis readLine_shorter readLine_max_full Suc_eq_plus1 snd_conv)+)

declare readLines.simps [simp del]

text \<open>\<open>NetDev::handleData\<close>: nothing is read before the TLS handshake completes.\<close>

definition handleData ::
  "(message \<Rightarrow> string) \<Rightarrow> (string \<Rightarrow> jvalue option) \<Rightarrow> netdev \<Rightarrow> nd_error + netdev" where
  "handleData ser parse nd =
     (case s nd of
        None \<Rightarrow> Inl NullSocket
      | Some sk \<Rightarrow>
          if \<not> sk_encrypted sk then Inr nd
          else let (rest, d', sk') = readLines ser parse (rbuf sk) (rd nd, sk)
               in Inr (nd\<lparr>rd := d', s := Some (sk'\<lparr>rbuf := rest\<rparr>)\<rparr>))"

text \<open>\<open>NetDev::handleDisconnection\<close>: log, then close on behalf of the peer.\<close>

definition handleDisconnection :: "(message \<Rightarrow> string) \<Rightarrow> netdev \<Rightarrow> nd_error + netdev" where
  "handleDisconnection ser nd =
     rd_apply ser (\<lambda>d. close UnknownReason True (log ''Remote disconnected'' d)) nd"

text \<open>\<open>NetDev::handleNetworkError\<close>: the error a normal disconnection raises is ignored,
  any other error is only logged.\<close>

definition handleNetworkError :: "(message \<Rightarrow> string) \<Rightarrow> socket_error \<Rightarrow> netdev \<Rightarrow> nd_error + netdev" where
  "handleNetworkError ser err nd =
     (if err = RemoteHostClosedError then Inr nd
      else rd_apply ser (log (''DDX bug: Unhandled network error (QAbstractSocket): '' @
                               CHR 0x27 # QString_number (socket_error_code err) @ [CHR 0x27])) nd)"

text \<open>
  \<open>NetDev::~NetDev\<close>: \<open>delete s\<close> if the pointer is set. A socket that \<open>sub_init\<close>
  scheduled for deletion with \<open>deleteLater\<close> is freed once the event loop has run the
  deferred deletion; the destructor then deletes a dangling pointer. Before that,
  deleting the socket is sound (a deleted object's pending deferred deletion is dropped).
\<close>

definition destroy_NetDev :: "netdev \<Rightarrow> nd_error + unit" where
  "destroy_NetDev nd =
     (case s nd of None \<Rightarrow> Inr () | Some sk \<Rightarrow> if sk_freed sk then Inl DanglingSocket else Inr ())"

section \<open>Analysis functions\<close>

text \<open>
  A \<open>RemDev\<close> operation taking \<open>d\<close> to \<open>d'\<close> only appends frames and never
  reopens a terminated transport.
\<close>

definition rd_extends :: "remdev \<Rightarrow> remdev \<Rightarrow> bool" where
  "rd_extends d d' \<longleftrightarrow> take (length (wire d)) (wire d') = wire d \<and> (terminated d \<longrightarrow> terminated d')"

text \<open>
  The adapter's invariant: the socket exists, the bytes written to it are the
  serialisations of the frames the connection sent, in order, \<open>disconnectFromHost\<close> was
  called exactly when the connection released its transport, and the connection
  keeps its own invariant.
\<close>

definition nd_inv :: "(message \<Rightarrow> string) \<Rightarrow> netdev \<Rightarrow> bool" where
  "nd_inv ser nd \<longleftrightarrow>
     (case s nd of
        None \<Rightarrow> False
      | Some sk \<Rightarrow> wbuf sk = concat (map ser (wire (rd nd))) \<and>
                   disconnectCalled sk = terminated (rd nd) \<and>
                   (sk_freed sk \<longrightarrow> sk_deleteLater sk) \<and> (sk_deleteLater sk \<longrightarrow> \<not> ready nd)) \<and>
     (deleteLaterSelf nd \<longrightarrow> \<not> ready nd) \<and> (nd_deleted nd \<longrightarrow> deleteLaterSelf nd) \<and>
     conn_inv (rd nd)"

text \<open>
  The effect on the connection and the socket of delivering complete lines, one
  \<open>handleItem\<close> per line, in order (the reference the loop of \<open>handleData\<close> is
  compared with).
\<close>

fun deliver_lines ::
  "(message \<Rightarrow> string) \<Rightarrow> (string \<Rightarrow> jvalue option) \<Rightarrow> string list \<Rightarrow> remdev \<times> qsslsocket
   \<Rightarrow> remdev \<times> qsslsocket" where
  "deliver_lines ser parse [] st = st"
| "deliver_lines ser parse (l # ls) (d, sk) =
     (let d' = handleItem (length l) (parse l) d in deliver_lines ser parse ls (d', hooks ser d d' sk))"

definition is_frame :: "string \<Rightarrow> bool" where
  "is_frame l \<longleftrightarrow> l \<noteq> [] \<and> last l = CHR ''\<newline>'' \<and> CHR ''\<newline>'' \<notin> set (butlast l)"

section \<open>The adapter's event loop\<close>

datatype nd_event =
    RdEvent conn_event
  | BytesArrived string
  | HandshakeDone
  | RemoteClosed
  | SocketError socket_error
  | DeferredDelete

text \<open>
  The socket's signals reach the slots only when \<open>sub_init\<close> connected them, which it
  does right before \<open>connectionReady()\<close>: exactly when the adapter is \<open>ready\<close>.
  \<open>DeferredDelete\<close> is the event loop running the deletions scheduled with
  \<open>deleteLater\<close>: the socket's, or the adapter's own. A deleted adapter is only
  reachable through stale pointers: calls into its \<open>RemDev\<close> are errors, and its
  socket, deleted with it, raises nothing.
\<close>

fun nd_step ::
  "(message \<Rightarrow> string) \<Rightarrow> (string \<Rightarrow> jvalue option) \<Rightarrow> qint64 \<Rightarrow> nd_event \<Rightarrow> netdev
   \<Rightarrow> nd_error + netdev" where
  "nd_step ser parse now (RdEvent e) nd =
     (if nd_deleted nd then Inl NetDevDeleted else rd_apply ser (conn_step now e) nd)"
| "nd_step ser parse now (BytesArrived b) nd =
     (case s nd of
        None \<Rightarrow> Inl NullSocket
      | Some sk \<Rightarrow>
          let nd1 = nd\<lparr>s := Some (sk\<lparr>rbuf := rbuf sk @ b\<rparr>)\<rparr>
          in if ready nd then handleData ser parse nd1 else Inr nd1)"
| "nd_step ser parse now HandshakeDone nd =
     (case s nd of
        None \<Rightarrow> Inl NullSocket
      | Some sk \<Rightarrow> Inr (nd\<lparr>s := Some (sk\<lparr>sk_encrypted := True\<rparr>)\<rparr>))"
| "nd_step ser parse now RemoteClosed nd =
     (case s nd of
        None \<Rightarrow> Inl NullSocket
      | Some sk \<Rightarrow>
          let nd1 = nd\<lparr>s := Some (sk\<lparr>sk_state := UnconnectedState\<rparr>)\<rparr>
          in if ready nd then handleDisconnection ser nd1 else Inr nd1)"
| "nd_step ser parse now (SocketError err) nd =
     (if ready nd then handleNetworkError ser err nd else Inr nd)"
| "nd_step ser parse now DeferredDelete nd =
     (if deleteLaterSelf nd then Inr (nd\<lparr>nd_deleted := True\<rparr>)
      else case s nd of
        None \<Rightarrow> Inr nd
      | Some sk \<Rightarrow> Inr (if sk_deleteLater sk then nd\<lparr>s := Some (sk\<lparr>sk_freed := True\<rparr>)\<rparr> else nd))"

inductive nd_reachable :: "(message \<Rightarrow> string) \<Rightarrow> (string \<Rightarrow> jvalue option) \<Rightarrow> netdev \<Rightarrow> bool"
  for ser parse where
  inbound: "nd_reachable ser parse
              (sub_init env (NetDev_inbound (init_RemDev name True maxSize rt now) sd))"
| outbound: "nd_reachable ser parse
              (sub_init env (NetDev_outbound (init_RemDev name False maxSize rt now) host p prot))"
| step: "nd_reachable ser parse nd \<Longrightarrow> nd_step ser parse now e nd = Inr nd' \<Longrightarrow>
         nd_reachable ser parse nd'"

section \<open>Frames and termination only grow\<close>

lemma rd_extends_refl [simp]: "rd_extends d d"
  by (simp add: rd_extends_def)

lemma rd_extends_iff: "rd_extends d d' \<longleftrightarrow>
    (\<exists>ms. wire d' = wire d @ ms) \<and> (terminated d \<longrightarrow> terminated d')"
proof -
  have "take (length a) b = a \<longleftrightarrow> (\<exists>ms. b = a @ ms)" for a b :: "message list"
    by (metis append_take_drop_id append_eq_conv_conj)
  then show ?thesis by (simp add: rd_extends_def)
qed

lemma rd_extends_append: "rd_extends d d' \<longleftrightarrow>
    wire d' = wire d @ drop (length (wire d)) (wire d') \<and> (terminated d \<longrightarrow> terminated d')"
  by (metis append_take_drop_id append_eq_conv_conj rd_extends_def)

lemma rd_extends_trans: "rd_extends d1 d2 \<Longrightarrow> rd_extends d2 d3 \<Longrightarrow> rd_extends d1 d3"
  by (clarsimp simp: rd_extends_iff)

lemma rd_extends_same:
  "wire d' = wire d \<Longrightarrow> terminated d' = terminated d \<Longrightarrow> rd_extends d d'"
  by (simp add: rd_extends_def)

lemma rd_extends_sendDocument [intro]: "rd_extends d (sendDocument m d)"
  by (simp add: rd_extends_def sendDocument_def)

lemma log_fields [simp]:
  "wire (log m d) = wire d" "terminated (log m d) = terminated d" "closed (log m d) = closed d"
  "disconnects (log m d) = disconnects d"
  by (simp_all add: log_def)

lemma rd_extends_close [intro]: "rd_extends d (close r fr d)"
  by (simp add: rd_extends_def)

lemma rd_extends_set_reg_flag: "terminated (set_reg_flag f d) = terminated d"
  by (simp add: set_reg_flag_def Let_def)

lemma rd_extends_handleResponse [intro]: "rd_extends d (handleResponse ok i v d)"
  by (auto simp: rd_extends_def handleResponse_def Let_def set_reg_flag_def
           split: option.split prod.split)

lemma rd_extends_handleCall [intro]: "rd_extends d (handleCall m i p d)"
  by (auto simp: handleCall_def handleRegistration_def handleDisconnect_def dispatch_request_def
                 rd_extends_def sendDocument_def set_reg_flag_def Let_def split: option.split)

lemma rd_extends_handleItem [intro]: "rd_extends d (handleItem len v d)"
  by (auto simp: handleItem_def split: sum.split decode_error.split message.split)

lemma rd_extends_timeoutPoll [intro]: "rd_extends d (timeoutPoll now d)"
  by (simp add: timeoutPoll_def Let_def rd_extends_def simulateErrors_eq)

lemma rd_extends_take_request:
  "take_request hn d = Inr (rq, d1) \<Longrightarrow> wire d1 = wire d \<and> terminated d1 = terminated d"
  by (auto simp: take_request_def split: option.splits)

lemma rd_extends_step [intro]: "rd_extends d (conn_step now e d)"
proof (cases e)
  case (SendRequest obj fn m p t)
  then show ?thesis by (simp add: sendRequest_def Let_def rd_extends_def sendDocument_def)
next
  case (SendRegistration x p t)
  then show ?thesis
    by (simp add: sendRegistration_def sendRequest_def Let_def rd_extends_def sendDocument_def
                  set_reg_flag_def)
next
  case (SendResponse hn r)
  then show ?thesis
    by (auto simp: sendResponse_def rd_extends_def sendDocument_def
             dest!: rd_extends_take_request split: sum.split option.split prod.split)
next
  case (SendError hn c m x)
  then show ?thesis
    by (auto simp: sendError_def rd_extends_def sendDocument_def
             dest!: rd_extends_take_request split: sum.split option.split prod.split)
next
  case (SendNotification m p)
  then show ?thesis by (auto simp: sendNotification_def)
qed (simp_all add: rd_extends_handleItem rd_extends_timeoutPoll rd_extends_close handlerDestroyed_def
                   rd_extends_same)

section \<open>The hooks\<close>

lemma fold_writeItem:
  "fold (\<lambda>m. writeItem (ser m)) ms sk = sk\<lparr>wbuf := wbuf sk @ concat (map ser ms)\<rparr>"
  by (induction ms arbitrary: sk) (simp_all add: writeItem_def)

lemma hooks_fields [simp]:
  "rbuf (hooks ser d d' sk) = rbuf sk" "sk_encrypted (hooks ser d d' sk) = sk_encrypted sk"
  "lowDelay (hooks ser d d' sk) = lowDelay sk" "keepAlive (hooks ser d d' sk) = keepAlive sk"
  "peerAddress (hooks ser d d' sk) = peerAddress sk"
  "sk_freed (hooks ser d d' sk) = sk_freed sk" "sk_deleteLater (hooks ser d d' sk) = sk_deleteLater sk"
  by (simp_all add: hooks_def Let_def fold_writeItem terminate_def)

lemma hooks_rbuf: "hooks ser d d' (sk\<lparr>rbuf := x\<rparr>) = (hooks ser d d' sk)\<lparr>rbuf := x\<rparr>"
  by (simp add: hooks_def Let_def fold_writeItem terminate_def)

lemma hooks_same [simp]: "hooks ser d d sk = sk"
  by (simp add: hooks_def fold_writeItem)

lemma hooks_inv:
  assumes "rd_extends d d'" and "wbuf sk = concat (map ser (wire d))"
    and "disconnectCalled sk = terminated d"
  shows "wbuf (hooks ser d d' sk) = concat (map ser (wire d')) \<and>
         disconnectCalled (hooks ser d d' sk) = terminated d'"
proof -
  from assms(1) have w: "wire d' = wire d @ drop (length (wire d)) (wire d')"
    and t: "terminated d \<longrightarrow> terminated d'"
    by (simp_all add: rd_extends_append)
  have "concat (map ser (wire d')) = wbuf sk @ concat (map ser (drop (length (wire d)) (wire d')))"
    by (subst w) (simp add: assms(2))
  with t assms(3) show ?thesis
    by (auto simp: hooks_def Let_def fold_writeItem terminate_def)
qed

lemma rd_apply_inv:
  assumes "nd_inv ser nd" and "rd_extends (rd nd) (f (rd nd))" and "conn_inv (f (rd nd))"
  shows "case rd_apply ser f nd of
           Inl err \<Rightarrow> \<exists>sk. s nd = Some sk \<and> sk_freed sk
         | Inr nd' \<Rightarrow> nd_inv ser nd' \<and> rd nd' = f (rd nd)"
proof -
  obtain sk where sk: "s nd = Some sk" and w: "wbuf sk = concat (map ser (wire (rd nd)))"
    and t: "disconnectCalled sk = terminated (rd nd)"
    using assms(1) by (auto simp: nd_inv_def split: option.splits)
  show ?thesis
    using sk hooks_inv [OF assms(2) w t] assms(1,3) by (auto simp: rd_apply_def nd_inv_def Let_def)
qed

section \<open>The read loop\<close>

text \<open>With a buffer one byte larger than the available data, every read takes a whole line.\<close>

lemma readLines_unfold:
  "readLines ser parse buf (d, sk) =
     (if canReadLine buf then
        let (line, rest) = readLine buf; amount = length line
        in if 0 < amount
           then let d' = handleItem amount (parse line) d in readLines ser parse rest (d', hooks ser d d' sk)
           else readLines ser parse rest (d, sk)
      else (buf, d, sk))"
  by (subst readLines.simps) (simp add: readLine_max_full [simplified] Let_def)

lemma readLine_max_line:
  "canReadLine buf \<Longrightarrow> readLine buf = (line, rest) \<Longrightarrow> (line, rest) = readLine_max (length buf + 1) buf"
  by (simp only: readLine_max_full)

lemma readLines_step:
  assumes "canReadLine buf" and "readLine buf = (line, rest)"
  shows "readLines ser parse buf (d, sk) =
           (let d' = handleItem (length line) (parse line) d
            in readLines ser parse rest (d', hooks ser d d' sk))"
proof -
  have "0 < length line" using readLine_line_pos [of buf] by (simp add: assms(2))
  with assms show ?thesis by (subst readLines_unfold) (simp add: Let_def)
qed

lemma readLines_stop: "\<not> canReadLine buf \<Longrightarrow> readLines ser parse buf st = (buf, st)"
  by (cases st) (simp add: readLines_unfold)

lemma readLines_rbuf:
  "readLines ser parse buf (d, sk\<lparr>rbuf := x\<rparr>) =
     (fst (readLines ser parse buf (d, sk)), fst (snd (readLines ser parse buf (d, sk))),
      (snd (snd (readLines ser parse buf (d, sk))))\<lparr>rbuf := x\<rparr>)"
proof (induction ser parse buf "(d, sk)" arbitrary: d sk rule: readLines.induct)
  case (1 ser parse buf d sk)
  show ?case
  proof (cases "canReadLine buf")
    case True
    obtain line rest where lr: "readLine buf = (line, rest)" by fastforce
    define d' where "d' = handleItem (length line) (parse line) d"
    have pos: "0 < length line" using readLine_line_pos [of buf] by (simp add: lr)
    show ?thesis
      using 1(1) [OF True, OF refl, OF readLine_max_line [OF True lr], OF refl, OF refl, OF pos, OF d'_def]
      by (simp add: readLines_step [OF True lr] d'_def [symmetric] hooks_rbuf)
  next
    case False
    then show ?thesis by (simp add: readLines_stop)
  qed
qed

lemma readLines_inv:
  assumes "wbuf sk = concat (map ser (wire d))" and "disconnectCalled sk = terminated d"
    and "conn_inv d"
  shows "wbuf (snd (snd (readLines ser parse buf (d, sk)))) =
           concat (map ser (wire (fst (snd (readLines ser parse buf (d, sk)))))) \<and>
         disconnectCalled (snd (snd (readLines ser parse buf (d, sk)))) =
           terminated (fst (snd (readLines ser parse buf (d, sk)))) \<and>
         conn_inv (fst (snd (readLines ser parse buf (d, sk))))"
  using assms
proof (induction ser parse buf "(d, sk)" arbitrary: d sk rule: readLines.induct)
  case (1 ser parse buf d sk)
  show ?case
  proof (cases "canReadLine buf")
    case True
    obtain line rest where lr: "readLine buf = (line, rest)" by fastforce
    define d' where "d' = handleItem (length line) (parse line) d"
    have h: "wbuf (hooks ser d d' sk) = concat (map ser (wire d')) \<and>
             disconnectCalled (hooks ser d d' sk) = terminated d'"
      using hooks_inv [OF rd_extends_handleItem 1(3,4)] by (simp add: d'_def)
    have c: "conn_inv d'" using 1(5) by (simp add: d'_def conn_inv_handleItem)
    have pos: "0 < length line" using readLine_line_pos [of buf] by (simp add: lr)
    have "readLines ser parse buf (d, sk) = readLines ser parse rest (d', hooks ser d d' sk)"
      by (simp add: readLines_step [OF True lr] d'_def Let_def)
    with 1(1) [OF True, OF refl, OF readLine_max_line [OF True lr], OF refl, OF refl, OF pos, OF d'_def] h c show ?thesis by simp
  next
    case False
    then show ?thesis using 1(3-5) by (simp add: readLines_unfold)
  qed
qed

lemma readLines_append:
  "readLines ser parse (a @ b) st =
     (let (r, st') = readLines ser parse a st in readLines ser parse (r @ b) st')"
proof (induction ser parse a st rule: readLines.induct)
  case (1 ser parse buf d sk)
  show ?case
  proof (cases "canReadLine buf")
    case True
    obtain line rest where lr: "readLine buf = (line, rest)" by fastforce
    have pos: "0 < length line" using readLine_line_pos [of buf] by (simp add: lr)
    have "readLine (buf @ b) = (line, rest @ b)" using readLine_append [OF True] by (simp add: lr)
    with True pos lr 1(1) [OF True, OF refl, OF readLine_max_line [OF True lr], OF refl, OF refl, OF pos, OF refl] show ?thesis
      by (subst (1 2) readLines_unfold) (simp add: Let_def)
  next
    case False
    then show ?thesis by (subst (1 2) readLines_unfold) (simp add: Let_def)
  qed
qed

lemma readLines_frames:
  assumes "list_all is_frame ls" and "\<not> canReadLine p"
  shows "readLines ser parse (concat ls @ p) st = (p, deliver_lines ser parse ls st)"
  using assms(1)
proof (induction ls arbitrary: st)
  case Nil
  obtain d sk where "st = (d, sk)" by fastforce
  with assms(2) show ?case by (simp add: readLines_unfold)
next
  case (Cons l ls)
  obtain d sk where st: "st = (d, sk)" by fastforce
  obtain x where l: "l = x @ [CHR ''\<newline>'']" and x: "CHR ''\<newline>'' \<notin> set x"
    using Cons.prems by (auto simp: is_frame_def) (metis append_butlast_last_id)
  have "readLine (concat (l # ls) @ p) = (l, concat ls @ p)"
    using readLine_frame [OF x, of "concat ls @ p"] by (simp add: l)
  moreover have "canReadLine (concat (l # ls) @ p)" by (simp add: l canReadLine_def)
  ultimately show ?case
    using Cons.IH Cons.prems unfolding st by (simp add: readLines_step l Let_def)
qed

lemma deliver_lines_rd:
  "fst (deliver_lines ser parse ls (d, sk)) = fold (\<lambda>l d. handleItem (length l) (parse l) d) ls d"
  by (induction ls arbitrary: d sk) (simp_all add: Let_def)

lemma readLines_hooks_field:
  assumes "\<And>ser d d' sk. f (hooks ser d d' sk) = f sk"
  shows "f (snd (snd (readLines ser parse buf (d, sk)))) = f sk"
proof (induction ser parse buf "(d, sk)" arbitrary: d sk rule: readLines.induct)
  case (1 ser' parse buf d sk)
  show ?case
  proof (cases "canReadLine buf")
    case True
    obtain line rest where lr: "readLine buf = (line, rest)" by fastforce
    define d' where "d' = handleItem (length line) (parse line) d"
    have pos: "0 < length line" using readLine_line_pos [of buf] by (simp add: lr)
    show ?thesis
      using 1(1) [OF True, OF refl, OF readLine_max_line [OF True lr], OF refl, OF refl, OF pos, OF d'_def]
      by (simp add: readLines_step [OF True lr] d'_def [symmetric] assms)
  next
    case False
    then show ?thesis by (simp add: readLines_stop)
  qed
qed

lemma readLines_encrypted:
  "sk_encrypted (snd (snd (readLines ser parse buf (d, sk)))) = sk_encrypted sk"
  by (rule readLines_hooks_field) simp

section \<open>The adapter keeps its invariant\<close>

lemma nd_inv_sub_init:
  assumes "wire (rd nd) = []" and "\<not> terminated (rd nd)" and "conn_inv (rd nd)"
    and "\<not> ready nd" and "\<not> deleteLaterSelf nd" and "\<not> nd_deleted nd"
  shows "nd_inv ser (sub_init env nd)"
  using assms
  by (simp add: sub_init_def configure_socket_def Let_def nd_inv_def new_QSslSocket_def)

lemma nd_inv_handleData:
  assumes "nd_inv ser nd"
  shows "\<exists>nd'. handleData ser parse nd = Inr nd' \<and> nd_inv ser nd'"
proof -
  obtain sk where sk: "s nd = Some sk" and w: "wbuf sk = concat (map ser (wire (rd nd)))"
    and t: "disconnectCalled sk = terminated (rd nd)" and c: "conn_inv (rd nd)"
    using assms by (auto simp: nd_inv_def split: option.splits)
  have f: "sk_freed (snd (snd (readLines ser parse (rbuf sk) (rd nd, sk)))) = sk_freed sk"
    "sk_deleteLater (snd (snd (readLines ser parse (rbuf sk) (rd nd, sk)))) = sk_deleteLater sk"
    by (rule readLines_hooks_field, simp)+
  show ?thesis
    using sk readLines_inv [OF w t c, of parse "rbuf sk"] f assms
    by (auto simp: handleData_def nd_inv_def w t c split: prod.split)
qed

text \<open>
  Every step of a \<open>NetDev\<close> in the invariant either keeps the invariant or fails, and it
  fails only on an adapter the event loop has deleted or on a socket it has freed.
\<close>

lemma nd_inv_step:
  assumes inv: "nd_inv ser nd"
  shows "case nd_step ser parse now e nd of
           Inl err \<Rightarrow> nd_deleted nd \<or> (\<exists>sk. s nd = Some sk \<and> sk_freed sk)
         | Inr nd' \<Rightarrow> nd_inv ser nd'"
proof (cases e)
  case (RdEvent ce)
  have "conn_inv (conn_step now ce (rd nd))" using inv by (simp add: nd_inv_def conn_inv_step)
  then have "case rd_apply ser (conn_step now ce) nd of
               Inl err \<Rightarrow> \<exists>sk. s nd = Some sk \<and> sk_freed sk
             | Inr nd' \<Rightarrow> nd_inv ser nd' \<and> rd nd' = conn_step now ce (rd nd)"
    using rd_apply_inv [OF inv] rd_extends_step by blast
  with RdEvent show ?thesis by (auto split: sum.splits)
next
  case (BytesArrived b)
  obtain sk where sk: "s nd = Some sk" using inv by (auto simp: nd_inv_def split: option.splits)
  let ?nd = "nd\<lparr>s := Some (sk\<lparr>rbuf := rbuf sk @ b\<rparr>)\<rparr>"
  have i: "nd_inv ser ?nd" using inv sk by (simp add: nd_inv_def)
  obtain nd' where "handleData ser parse ?nd = Inr nd'" and "nd_inv ser nd'"
    using nd_inv_handleData [OF i] by blast
  with i show ?thesis using BytesArrived sk by (simp add: Let_def)
next
  case HandshakeDone
  with inv show ?thesis by (auto simp: nd_inv_def split: option.splits)
next
  case RemoteClosed
  obtain sk where sk: "s nd = Some sk" using inv by (auto simp: nd_inv_def split: option.splits)
  let ?nd = "nd\<lparr>s := Some (sk\<lparr>sk_state := UnconnectedState\<rparr>)\<rparr>"
  have i: "nd_inv ser ?nd" using inv sk by (simp add: nd_inv_def)
  let ?f = "\<lambda>d. close UnknownReason True (log ''Remote disconnected'' d)"
  have "rd_extends (rd ?nd) (?f (rd ?nd))"
    by (rule rd_extends_trans [OF rd_extends_same rd_extends_close]) simp_all
  moreover have "conn_inv (?f (rd ?nd))"
    using inv by (simp add: nd_inv_def conn_inv_close)
  ultimately have "case rd_apply ser ?f ?nd of
                     Inl err \<Rightarrow> \<exists>sk'. s ?nd = Some sk' \<and> sk_freed sk'
                   | Inr nd' \<Rightarrow> nd_inv ser nd' \<and> rd nd' = ?f (rd ?nd)"
    by (rule rd_apply_inv [OF i])
  then show ?thesis using RemoteClosed sk i
    by (auto simp: handleDisconnection_def Let_def split: sum.splits)
next
  case (SocketError err)
  have e: "rd_extends (rd nd) (log m (rd nd))" "conn_inv (log m (rd nd))" for m
    using inv by (simp_all add: rd_extends_same nd_inv_def)
  have "case rd_apply ser (log m) nd of
          Inl err \<Rightarrow> nd_deleted nd \<or> (\<exists>sk. s nd = Some sk \<and> sk_freed sk)
        | Inr nd' \<Rightarrow> nd_inv ser nd'" for m
    using rd_apply_inv [where f = "log m", OF inv e] by (auto split: sum.splits)
  then show ?thesis using inv SocketError by (simp add: handleNetworkError_def)
next
  case DeferredDelete
  with inv show ?thesis by (auto simp: nd_inv_def split: option.splits)
qed

lemma nd_reachable_inv: "nd_reachable ser parse nd \<Longrightarrow> nd_inv ser nd"
proof (induction rule: nd_reachable.induct)
  case (inbound env name maxSize rt now sd)
  show ?case
    by (rule nd_inv_sub_init) (simp_all add: NetDev_inbound_def init_RemDev_def conn_inv_init [unfolded init_RemDev_def])
next
  case (outbound env name maxSize rt now host p prot)
  show ?case
    by (rule nd_inv_sub_init) (simp_all add: NetDev_outbound_def init_RemDev_def conn_inv_init [unfolded init_RemDev_def])
next
  case (step nd now e nd')
  then show ?case using nd_inv_step [OF step.IH, of parse now e] by simp
qed

section \<open>Properties of the adapter\<close>


text \<open>
  C6: on an encrypted socket whose buffer holds complete lines followed by an
  incomplete one, \<open>handleData\<close> hands each complete line, with its length, to
  \<open>RemDev::handleItem\<close>, in order, and leaves exactly the incomplete line buffered.
\<close>

theorem handleData_frames:
  assumes "s nd = Some sk" and "sk_encrypted sk" and "rbuf sk = concat ls @ p"
    and "list_all is_frame ls" and "\<not> canReadLine p"
  shows "\<exists>nd'. handleData ser parse nd = Inr nd' \<and>
           rd nd' = fold (\<lambda>l d. handleItem (length l) (parse l) d) ls (rd nd) \<and>
           map_option rbuf (s nd') = Some p"
proof -
  have "readLines ser parse (rbuf sk) (rd nd, sk) = (p, deliver_lines ser parse ls (rd nd, sk))"
    using readLines_frames [OF assms(4,5)] by (simp add: assms(3))
  moreover obtain d' sk' where D: "deliver_lines ser parse ls (rd nd, sk) = (d', sk')"
    by fastforce
  ultimately show ?thesis
    using deliver_lines_rd [of ser parse ls "rd nd" sk] assms(1,2)
    by (simp add: handleData_def)
qed

text \<open>
  C17: on an encrypted socket, bytes that arrive in two pieces (two \<open>readyRead\<close>
  signals) are processed exactly as if they had arrived at once: the framing does not
  depend on how the stream is segmented.
\<close>

theorem handleData_chunking:
  assumes "s nd = Some sk" and "sk_encrypted sk"
  shows "(case nd_step ser parse now (BytesArrived a) nd of
            Inl err \<Rightarrow> Inl err
          | Inr nd1 \<Rightarrow> nd_step ser parse now' (BytesArrived b) nd1) =
         nd_step ser parse now (BytesArrived (a @ b)) nd"
proof (cases "ready nd")
  case False
  with assms(1) show ?thesis by (simp add: Let_def)
next
  case True
  obtain r1 d1 sk1 where R1: "readLines ser parse (rbuf sk @ a) (rd nd, sk) = (r1, d1, sk1)"
    by (cases "readLines ser parse (rbuf sk @ a) (rd nd, sk)") auto
  obtain r2 d2 sk2 where R2: "readLines ser parse (r1 @ b) (d1, sk1) = (r2, d2, sk2)"
    by (cases "readLines ser parse (r1 @ b) (d1, sk1)") auto
  have R: "readLines ser parse (rbuf sk @ a @ b) (rd nd, sk) = (r2, d2, sk2)"
    using readLines_append [of ser parse "rbuf sk @ a" b "(rd nd, sk)"] R1 R2 by simp
  have e1: "sk_encrypted sk1" using readLines_encrypted [of ser parse "rbuf sk @ a" "rd nd" sk] R1 assms(2)
    by simp
  show ?thesis
    using assms R1 R2 R e1 True by (simp add: handleData_def readLines_rbuf Let_def)
qed

text \<open>
  C30: before the TLS handshake has completed, arriving bytes are only buffered:
  no line is parsed and the connection is left as it is, however many bytes accumulate
  (they do not count toward the frame size limit).
\<close>

theorem handleData_before_handshake:
  "s nd = Some sk \<Longrightarrow> \<not> sk_encrypted sk \<Longrightarrow>
   nd_step ser parse now (BytesArrived b) nd = Inr (nd\<lparr>s := Some (sk\<lparr>rbuf := rbuf sk @ b\<rparr>)\<rparr>)"
  by (simp add: handleData_def Let_def)

text \<open>
  C25: when the peer disconnects, an adapter whose slots are connected (it is ready) and
  whose socket is live closes an open connection with the single notification
  \<open>(UnknownReason, fromRemote = true)\<close>; on a connection that is already closed no
  second notification is emitted.
\<close>

theorem remote_close_once:
  assumes "s nd = Some sk" and "ready nd" and "\<not> sk_freed sk"
  shows "\<exists>nd'. nd_step ser parse now RemoteClosed nd = Inr nd' \<and> closed (rd nd') \<and>
           disconnects (rd nd') =
             disconnects (rd nd) @ (if closed (rd nd) then [] else [(UnknownReason, True)])"
  using assms
  by (simp add: handleDisconnection_def rd_apply_def Let_def close_disconnects)

text \<open>
  C31: \<open>RemoteHostClosedError\<close> is ignored; any other socket error only adds a log
  line: the connection is neither closed nor otherwise changed.
\<close>

theorem network_error_logged_only:
  "handleNetworkError ser RemoteHostClosedError nd = Inr nd \<and>
   (s nd \<noteq> None \<longrightarrow> err \<noteq> RemoteHostClosedError \<longrightarrow>
      (\<exists>nd'. handleNetworkError ser err nd = Inr nd' \<and> closed (rd nd') = closed (rd nd) \<and>
             disconnects (rd nd') = disconnects (rd nd) \<and> reqs (rd nd') = reqs (rd nd) \<and>
             length (logs (rd nd')) = Suc (length (logs (rd nd)))))"
  by (auto simp: handleNetworkError_def rd_apply_def log_def Let_def touches_socket_def)

text \<open>
  An accepted, connected socket gets \<open>LowDelayOption\<close>, gets
  \<open>KeepAliveOption\<close> exactly when the peer is not the loopback address of its protocol,
  starts the server side of the TLS handshake, and the connection is reported ready.
\<close>

theorem sub_init_socket_options:
  assumes "descriptor nd \<noteq> 0" and "descriptorAccepted env" and "env_state env = ConnectedState"
  shows "\<exists>sk. s (sub_init env nd) = Some sk \<and> lowDelay sk \<and>
           (keepAlive sk \<longleftrightarrow> env_peer env \<noteq> LocalHost \<and> env_peer env \<noteq> LocalHostIPv6) \<and>
           serverEncryption sk \<and> ready (sub_init env nd)"
  using assms
  by (cases "env_peer env")
     (auto simp: sub_init_def configure_socket_def Let_def new_QSslSocket_def LocalHost_def
                 LocalHostIPv6_def)

text \<open>
  An outbound \<open>NetDev\<close> (no descriptor) is reported ready with a socket that was
  never connected and never started a handshake.
\<close>

theorem sub_init_outbound_unconnected:
  "descriptor nd = 0 \<Longrightarrow>
   \<exists>sk. s (sub_init env nd) = Some sk \<and> sk_state sk = UnconnectedState \<and>
        \<not> serverEncryption sk \<and> ready (sub_init env nd)"
  by (simp add: sub_init_def configure_socket_def Let_def new_QSslSocket_def)

text \<open>
  C32: when an accepted socket is not connected, \<open>sub_init\<close> schedules the socket for
  deletion but keeps the pointer and never connects the slots or reports the connection
  ready. Deleting the adapter at once is still sound; but once the event loop has run the
  deferred deletion, the destructor deletes a dangling pointer, and any operation of the
  open connection that sends a frame writes through it.
\<close>

theorem sub_init_unconnected_dangling:
  assumes "sd \<noteq> 0" and "descriptorAccepted env" and "env_state env \<noteq> ConnectedState"
    and "\<not> closed d"
  shows "\<not> ready (sub_init env (NetDev_inbound d sd)) \<and> destroy_NetDev (sub_init env (NetDev_inbound d sd)) = Inr () \<and>
         (\<exists>nd'. nd_step ser parse now DeferredDelete (sub_init env (NetDev_inbound d sd)) = Inr nd' \<and>
                destroy_NetDev nd' = Inl DanglingSocket \<and>
                nd_step ser parse now' (RdEvent (SendNotification m p)) nd' = Inl DanglingSocket)"
  using assms
  by (simp add: sub_init_def destroy_NetDev_def Let_def new_QSslSocket_def NetDev_inbound_def
                rd_apply_def touches_socket_def sendNotification_def sendDocument_def)

section \<open>Witnesses\<close>


theorem handleData_frames_witness:
  "let sk = new_QSslSocket\<lparr>sk_encrypted := True, rbuf := ''{}\<newline>{''\<rparr>;
       nd = (NetDev_inbound (init_RemDev ''Unknown1'' True 4096 30000 1000) 5)\<lparr>s := Some sk\<rparr>
   in s nd = Some sk \<and> sk_encrypted sk \<and> rbuf sk = concat [''{}\<newline>''] @ ''{'' \<and>
      list_all is_frame [''{}\<newline>''] \<and> \<not> canReadLine ''{'' \<and>
      (\<exists>nd'. handleData (\<lambda>m. ''f'') (\<lambda>l. None) nd = Inr nd' \<and>
         rd nd' = fold (\<lambda>l d. handleItem (length l) ((\<lambda>l. None) l) d) [''{}\<newline>''] (rd nd) \<and>
         map_option rbuf (s nd') = Some ''{'')"
proof -
  define sk where "sk = new_QSslSocket\<lparr>sk_encrypted := True, rbuf := ''{}\<newline>{''\<rparr>"
  define nd where "nd = (NetDev_inbound (init_RemDev ''Unknown1'' True 4096 30000 1000) 5)\<lparr>s := Some sk\<rparr>"
  have h: "s nd = Some sk" "sk_encrypted sk" "rbuf sk = concat [''{}\<newline>''] @ ''{''"
    "list_all is_frame [''{}\<newline>'']" "\<not> canReadLine ''{''"
    by (simp_all add: nd_def sk_def is_frame_def canReadLine_def)
  show ?thesis unfolding Let_def sk_def [symmetric] nd_def [symmetric]
    using h handleData_frames [OF h, of "\<lambda>m. ''f''" "\<lambda>l. None"] by blast
qed

theorem handleData_chunking_witness:
  "let sk = new_QSslSocket\<lparr>sk_encrypted := True\<rparr>;
       nd = (NetDev_inbound (init_RemDev ''Unknown1'' True 4096 30000 1000) 5)\<lparr>s := Some sk\<rparr>
   in s nd = Some sk \<and> sk_encrypted sk \<and>
      (case nd_step (\<lambda>m. ''f'') (\<lambda>l. None) 1000 (BytesArrived ''{}'') nd of
         Inl err \<Rightarrow> Inl err
       | Inr nd1 \<Rightarrow> nd_step (\<lambda>m. ''f'') (\<lambda>l. None) 1001 (BytesArrived ''\<newline>'') nd1) =
      nd_step (\<lambda>m. ''f'') (\<lambda>l. None) 1000 (BytesArrived ''{}\<newline>'') nd"
proof -
  define sk where "sk = new_QSslSocket\<lparr>sk_encrypted := True\<rparr>"
  define nd where "nd = (NetDev_inbound (init_RemDev ''Unknown1'' True 4096 30000 1000) 5)\<lparr>s := Some sk\<rparr>"
  have h: "s nd = Some sk" "sk_encrypted sk" by (simp_all add: nd_def sk_def)
  show ?thesis unfolding Let_def sk_def [symmetric] nd_def [symmetric]
    using h handleData_chunking [OF h, where ser = "\<lambda>m. ''f''" and parse = "\<lambda>l. None"
            and now = 1000 and a = "''{}''" and now' = 1001 and b = "''\<newline>''"]
    by simp
qed

theorem handleData_before_handshake_witness:
  "let sk = new_QSslSocket;
       nd = (NetDev_inbound (init_RemDev ''Unknown1'' True 4 30000 1000) 5)\<lparr>s := Some sk\<rparr>
   in s nd = Some sk \<and> \<not> sk_encrypted sk \<and>
      nd_step (\<lambda>m. ''f'') (\<lambda>l. None) 1000 (BytesArrived ''{method:ping}\<newline>'') nd =
        Inr (nd\<lparr>s := Some (sk\<lparr>rbuf := rbuf sk @ ''{method:ping}\<newline>''\<rparr>)\<rparr>)"
proof -
  define sk where "sk = new_QSslSocket"
  define nd where "nd = (NetDev_inbound (init_RemDev ''Unknown1'' True 4 30000 1000) 5)\<lparr>s := Some sk\<rparr>"
  have h: "s nd = Some sk" "\<not> sk_encrypted sk" by (simp_all add: nd_def sk_def new_QSslSocket_def)
  show ?thesis unfolding Let_def sk_def [symmetric] nd_def [symmetric]
    using h handleData_before_handshake [OF h] by simp
qed

theorem remote_close_once_witness:
  "let sk = new_QSslSocket;
       nd = (NetDev_inbound (init_RemDev ''Unknown1'' True 4096 30000 1000) 5)\<lparr>s := Some sk, ready := True\<rparr>
   in s nd = Some sk \<and> ready nd \<and> \<not> sk_freed sk \<and>
      (\<exists>nd'. nd_step (\<lambda>m. ''f'') (\<lambda>l. None) 1000 RemoteClosed nd = Inr nd' \<and> closed (rd nd') \<and>
             disconnects (rd nd') = [(UnknownReason, True)])"
proof -
  define sk where "sk = new_QSslSocket"
  define nd where "nd = (NetDev_inbound (init_RemDev ''Unknown1'' True 4096 30000 1000) 5)\<lparr>s := Some sk, ready := True\<rparr>"
  have h: "s nd = Some sk" "ready nd" "\<not> sk_freed sk" by (simp_all add: nd_def sk_def new_QSslSocket_def)
  have o: "\<not> closed (rd nd)" "disconnects (rd nd) = []"
    by (simp_all add: nd_def init_RemDev_def NetDev_inbound_def)
  show ?thesis unfolding Let_def sk_def [symmetric] nd_def [symmetric]
    using h o remote_close_once [OF h, of "\<lambda>m. ''f''" "\<lambda>l. None" 1000] by simp
qed

theorem network_error_logged_only_witness:
  "let nd = (NetDev_inbound (init_RemDev ''Unknown1'' True 4096 30000 1000) 5)\<lparr>s := Some new_QSslSocket\<rparr>
   in s nd \<noteq> None \<and> NetworkError \<noteq> RemoteHostClosedError \<and>
      (\<exists>nd'. handleNetworkError (\<lambda>m. ''f'') NetworkError nd = Inr nd' \<and> \<not> closed (rd nd') \<and>
             disconnects (rd nd') = [] \<and> length (logs (rd nd')) = 1)"
proof -
  define nd where "nd = (NetDev_inbound (init_RemDev ''Unknown1'' True 4096 30000 1000) 5)\<lparr>s := Some new_QSslSocket\<rparr>"
  have h: "s nd \<noteq> None" "NetworkError \<noteq> RemoteHostClosedError" by (simp_all add: nd_def)
  have o: "\<not> closed (rd nd)" "disconnects (rd nd) = []" "logs (rd nd) = []"
    by (simp_all add: nd_def init_RemDev_def NetDev_inbound_def)
  show ?thesis unfolding Let_def nd_def [symmetric]
    using h o network_error_logged_only [of "\<lambda>m. ''f''" nd NetworkError] by auto
qed

theorem sub_init_socket_options_witness:
  "let env = \<lparr>descriptorAccepted = True, env_state = ConnectedState, env_peer = IPv4Address 0x0A000001,
              env_peer_text = ''10.0.0.1:52000''\<rparr>;
       nd = NetDev_inbound (init_RemDev ''Unknown1'' True 4096 30000 1000) 5
   in descriptor nd \<noteq> 0 \<and> descriptorAccepted env \<and> env_state env = ConnectedState \<and>
      (\<exists>sk. s (sub_init env nd) = Some sk \<and> lowDelay sk \<and> keepAlive sk \<and> serverEncryption sk)"
proof -
  define env where "env = \<lparr>descriptorAccepted = True, env_state = ConnectedState,
      env_peer = IPv4Address 0x0A000001, env_peer_text = ''10.0.0.1:52000''\<rparr>"
  define nd where "nd = NetDev_inbound (init_RemDev ''Unknown1'' True 4096 30000 1000) 5"
  have h: "descriptor nd \<noteq> 0" "descriptorAccepted env" "env_state env = ConnectedState"
    by (simp_all add: nd_def env_def NetDev_inbound_def)
  have p: "env_peer env \<noteq> LocalHost \<and> env_peer env \<noteq> LocalHostIPv6"
    by (simp add: env_def LocalHost_def LocalHostIPv6_def)
  show ?thesis unfolding Let_def env_def [symmetric] nd_def [symmetric]
    using h p sub_init_socket_options [OF h] by blast
qed

theorem sub_init_outbound_unconnected_witness:
  "let nd = NetDev_outbound (init_RemDev ''Unknown1'' False 4096 30000 1000) ''daemon.local'' 4388 IPv4Protocol;
       env = \<lparr>descriptorAccepted = False, env_state = UnconnectedState, env_peer = NullAddress,
              env_peer_text = []\<rparr>
   in descriptor nd = 0 \<and>
      (\<exists>sk. s (sub_init env nd) = Some sk \<and> sk_state sk = UnconnectedState \<and>
           \<not> serverEncryption sk \<and> ready (sub_init env nd))"
proof -
  define nd where "nd = NetDev_outbound (init_RemDev ''Unknown1'' False 4096 30000 1000) ''daemon.local'' 4388 IPv4Protocol"
  have h: "descriptor nd = 0" by (simp add: nd_def NetDev_outbound_def)
  show ?thesis unfolding Let_def nd_def [symmetric]
    using h sub_init_outbound_unconnected [OF h] by blast
qed

theorem sub_init_unconnected_dangling_witness:
  "let d = init_RemDev ''Unknown1'' True 4096 30000 1000;
       env = \<lparr>descriptorAccepted = True, env_state = ConnectingState, env_peer = NullAddress,
              env_peer_text = []\<rparr>
   in (5::nat) \<noteq> 0 \<and> descriptorAccepted env \<and> env_state env \<noteq> ConnectedState \<and> \<not> closed d \<and>
      \<not> ready (sub_init env (NetDev_inbound d 5)) \<and> destroy_NetDev (sub_init env (NetDev_inbound d 5)) = Inr () \<and>
      (\<exists>nd'. nd_step (\<lambda>m. ''f'') (\<lambda>l. None) 1000 DeferredDelete (sub_init env (NetDev_inbound d 5)) = Inr nd' \<and>
             destroy_NetDev nd' = Inl DanglingSocket \<and>
             nd_step (\<lambda>m. ''f'') (\<lambda>l. None) 1001 (RdEvent (SendNotification ''hello'' None)) nd' = Inl DanglingSocket)"
proof -
  define d where "d = init_RemDev ''Unknown1'' True 4096 30000 1000"
  define env where "env = \<lparr>descriptorAccepted = True, env_state = ConnectingState,
      env_peer = NullAddress, env_peer_text = []\<rparr>"
  have h: "(5::nat) \<noteq> 0" "descriptorAccepted env" "env_state env \<noteq> ConnectedState" "\<not> closed d"
    by (simp_all add: d_def env_def init_RemDev_def)
  show ?thesis unfolding Let_def d_def [symmetric] env_def [symmetric]
    using h sub_init_unconnected_dangling [OF h, of "\<lambda>m. ''f''" "\<lambda>l. None" 1000 1001 "''hello''" None] by simp
qed

end
