(* ===== verification/Listener.thy ===== *)
theory Listener
  imports NetDev
begin

text \<open>
  The listener of the daemon, class \<open>Network\<close> of \<open>src/DDX-daemon/network.cpp\<close>. Its
  state is the \<open>QTcpServer\<close> created by \<open>init\<close>, the hash \<open>sockets\<close> of named
  sockets (a list in the hash's iteration order), the list \<open>ur_sockets\<close> of accepted,
  not yet registered sockets, and what it makes observable: the log lines it emits
  through \<open>sendLog\<close> (each prefixed \<open>network:\<close>) and the daemon's \<open>quit\<close>, called
  directly on a bind failure or queued when a device says \<open>exit\<close>. Sockets are
  pointers into an explicit heap \<open>socks\<close> (\<open>QTcpSocket\<close>: its state, peer address,
  read buffer and whether \<open>deleteLater\<close> was called), because the slots reach them
  through both lists. The settings the daemon hands to \<open>init\<close> are a record. The
  destructor is modelled with the list of sockets it has already freed: the slot
  \<open>handleDisconnection\<close> it triggers runs on containers that still hold them, so that
  reading or deleting one of them again is an error value.
\<close>

type_synonym sock_ref = nat

record tcpsocket =
  ts_state :: socket_state
  ts_peer :: host_address
  ts_rbuf :: string
  ts_deleteLater :: bool

datatype bind_address = BindLocalHost | BindAny

record qtcpserver =
  srv_listening :: bool
  srv_address :: bind_address
  srv_port :: "16 word"
  srv_pending :: "sock_ref list"
  srv_children :: nat

text \<open>\<open>d->s("network/GUIPort").toInt()\<close> and \<open>d->s("network/AllowExternalManagement").toBool()\<close>.\<close>

record daemon_settings =
  GUIPort :: int
  AllowExternalManagement :: bool

datatype daemon_exit = E_TCP_SERVER_FAILED

record network =
  server :: "qtcpserver option"
  sockets :: "(string \<times> sock_ref) list"
  ur_sockets :: "sock_ref list"
  socks :: "sock_ref \<Rightarrow> tcpsocket"
  net_logs :: "string list"
  quit_code :: "daemon_exit option"
  quit_queued :: bool

text \<open>\<open>Network::Network\<close>: no server until \<open>init\<close> runs in the network thread.\<close>

definition init_Network :: "(sock_ref \<Rightarrow> tcpsocket) \<Rightarrow> network" where
  "init_Network h =
     \<lparr>server = None, sockets = [], ur_sockets = [], socks = h, net_logs = [],
      quit_code = None, quit_queued = False\<rparr>"

text \<open>\<open>Network::log\<close>: the message prefixed with \<open>network:\<close>, emitted to the daemon.\<close>

definition net_log :: "string \<Rightarrow> network \<Rightarrow> network" where
  "net_log msg n = n\<lparr>net_logs := net_logs n @ [''network:'' @ msg]\<rparr>"

definition quoted :: "string \<Rightarrow> string" where
  "quoted x = CHR 0x27 # x @ [CHR 0x27]"

section \<open>Initialisation and shutdown\<close>

text \<open>
  \<open>Network::init\<close>: a new server bound to the loopback address, or to every address
  when external management is allowed, on the configured port converted to the
  \<open>quint16\<close> parameter of \<open>listen\<close>. If \<open>listen\<close> fails (its answer and error string
  are inputs), the error is logged and the daemon quits with \<open>E_TCP_SERVER_FAILED\<close>.
\<close>

definition init :: "daemon_settings \<Rightarrow> bool \<Rightarrow> string \<Rightarrow> network \<Rightarrow> network" where
  "init st listenOk errorString n =
     (let srv = \<lparr>srv_listening = False, srv_address = BindLocalHost, srv_port = 0, srv_pending = [],
                 srv_children = 0\<rparr>;
          p = GUIPort st;
          a = (if AllowExternalManagement st then BindAny else BindLocalHost)
      in if \<not> listenOk
         then (net_log (''Server creation failed with error '' @ quoted errorString @
                        ''.  This is likely because another DDX daemon is already running on this machine.'')
                 (n\<lparr>server := Some srv\<rparr>))\<lparr>quit_code := Some E_TCP_SERVER_FAILED\<rparr>
         else n\<lparr>server := Some (srv\<lparr>srv_listening := True, srv_address := a, srv_port := word_of_int p\<rparr>)\<rparr>)"

text \<open>\<open>Network::shutdown\<close>: log and stop listening.\<close>

definition shutdown :: "network \<Rightarrow> network" where
  "shutdown n =
     (let n1 = net_log ''Closing network connections'' n
      in n1\<lparr>server := map_option (\<lambda>srv. srv\<lparr>srv_listening := False\<rparr>) (server n1)\<rparr>)"

section \<open>Reading (Network::handleData)\<close>

text \<open>The named sockets are only reported, never read.\<close>

fun report_sockets :: "(string \<times> sock_ref) list \<Rightarrow> network \<Rightarrow> network" where
  "report_sockets [] n = n"
| "report_sockets ((k, x) # xs) n =
     report_sockets xs (if canReadLine (ts_rbuf (socks n x)) then net_log ''Can read data'' n else n)"

text \<open>
  Each unregistered socket with a complete line gives up that one line (trimmed), which
  is logged; the line \<open>exit\<close> queues the daemon's \<open>quit\<close> and ends the slot.
\<close>

fun read_ur_sockets :: "sock_ref list \<Rightarrow> network \<Rightarrow> network" where
  "read_ur_sockets [] n = n"
| "read_ur_sockets (x # xs) n =
     (let sk = socks n x
      in if canReadLine (ts_rbuf sk) then
           let (l, rest) = readLine (ts_rbuf sk);
               line = trimmed l;
               n1 = net_log (''Device said '' @ quoted line)
                      (n\<lparr>socks := (socks n)(x := sk\<lparr>ts_rbuf := rest\<rparr>)\<rparr>)
           in if line = ''exit'' then n1\<lparr>quit_queued := True\<rparr> else read_ur_sockets xs n1
         else read_ur_sockets xs n)"

definition network_handleData :: "network \<Rightarrow> network" where
  "network_handleData n = read_ur_sockets (ur_sockets n) (report_sockets (sockets n) n)"

section \<open>Accepting (Network::handleConnection)\<close>

fun accept_pending :: "sock_ref list \<Rightarrow> network \<Rightarrow> network" where
  "accept_pending [] n = n"
| "accept_pending (x # xs) n =
     (let sk = socks n x;
          n1 = (if ts_state sk \<noteq> ConnectedState then net_log ''Not in connected state?'' n else n);
          n2 = net_log ''Connection found'' n1;
          n3 = (if ts_peer sk \<noteq> LocalHost then net_log ''Connection not from ipv4 localhost'' n2 else n2);
          n4 = n3\<lparr>ur_sockets := ur_sockets n3 @ [x]\<rparr>;
          n5 = (if ts_rbuf sk \<noteq> [] then network_handleData n4 else n4)
      in accept_pending xs n5)"

text \<open>
  \<open>Network::handleConnection\<close>: drain the server's pending connections (each becomes
  a child of the server), then log the number of children. The slot is connected in
  \<open>init\<close>, after the server exists.
\<close>

definition handleConnection :: "network \<Rightarrow> network" where
  "handleConnection n =
     (case server n of
        None \<Rightarrow> n
      | Some srv \<Rightarrow>
          let srv1 = srv\<lparr>srv_pending := [], srv_children := srv_children srv + length (srv_pending srv)\<rparr>;
              n1 = accept_pending (srv_pending srv) (n\<lparr>server := Some srv1\<rparr>)
          in net_log (''Server has '' @ QString_number (int (srv_children srv1)) @ '' children'') n1)"

section \<open>Disconnections (Network::handleDisconnection)\<close>

text \<open>
  What can go wrong when the slot runs while some pointers of the containers dangle
  (inside the destructor, see below): reading a freed socket, deleting one twice, or
  changing the container an iteration is walking.
\<close>

datatype dtor_error = ServerUninitialised | UseAfterFree sock_ref | DoubleFree sock_ref
  | ContainerModified

definition delete_later :: "sock_ref \<Rightarrow> network \<Rightarrow> network" where
  "delete_later x n = n\<lparr>socks := (socks n)(x := (socks n x)\<lparr>ts_deleteLater := True\<rparr>)\<rparr>"

text \<open>
  The iterator loop over the hash: \<open>erase\<close> an unconnected socket and step on. Every
  element's \<open>state()\<close> is read; the pointers \<open>fr\<close> are freed memory.
\<close>

fun sweep_sockets ::
  "sock_ref list \<Rightarrow> (string \<times> sock_ref) list \<Rightarrow> network \<Rightarrow> dtor_error + (string \<times> sock_ref) list \<times> network" where
  "sweep_sockets fr [] n = Inr ([], n)"
| "sweep_sockets fr ((k, x) # xs) n =
     (if x \<in> set fr then Inl (UseAfterFree x)
      else if ts_state (socks n x) = UnconnectedState
      then sweep_sockets fr xs (delete_later x n)
      else case sweep_sockets fr xs n of Inl e \<Rightarrow> Inl e | Inr (ys, n1) \<Rightarrow> Inr ((k, x) # ys, n1))"

text \<open>The index loop over \<open>ur_sockets\<close>: \<open>removeAt(i)\<close> without advancing \<open>i\<close>.\<close>

function sweep_ur :: "sock_ref list \<Rightarrow> nat \<Rightarrow> network \<Rightarrow> dtor_error + network" where
  "sweep_ur fr i n =
     (if i < length (ur_sockets n) then
        let x = ur_sockets n ! i
        in if x \<in> set fr then Inl (UseAfterFree x)
           else if ts_state (socks n x) = UnconnectedState
           then sweep_ur fr i (delete_later x (n\<lparr>ur_sockets := take i (ur_sockets n) @ drop (Suc i) (ur_sockets n)\<rparr>))
           else sweep_ur fr (Suc i) n
      else Inr n)"
  by pat_completeness auto
termination
  by (relation "measure (\<lambda>(fr, i, n). length (ur_sockets n) - i)") (auto simp: delete_later_def)

declare sweep_ur.simps [simp del]

text \<open>
  \<open>Network::handleDisconnection\<close> run while the pointers \<open>fr\<close> dangle: both loops,
  then the log line with the number of sockets left.
\<close>

definition handleDisconnection_in :: "sock_ref list \<Rightarrow> network \<Rightarrow> dtor_error + network" where
  "handleDisconnection_in fr n =
     (case sweep_sockets fr (sockets n) n of
        Inl e \<Rightarrow> Inl e
      | Inr (ks, n1) \<Rightarrow>
          (case sweep_ur fr 0 (n1\<lparr>sockets := ks\<rparr>) of
             Inl e \<Rightarrow> Inl e
           | Inr n2 \<Rightarrow> Inr (net_log (''Disconnected; there are '' @
                                 QString_number (int (length (sockets n2) + length (ur_sockets n2))) @
                                 '' active connections'') n2)))"

text \<open>The slot as the \<open>disconnected\<close> signal runs it normally: no pointer dangles.\<close>

definition network_handleDisconnection :: "network \<Rightarrow> network" where
  "network_handleDisconnection n = (case handleDisconnection_in [] n of Inl e \<Rightarrow> n | Inr n' \<Rightarrow> n')"

section \<open>Errors (Network::handleNetworkError)\<close>

definition network_handleNetworkError :: "socket_error \<Rightarrow> network \<Rightarrow> network" where
  "network_handleNetworkError err n =
     (if err = RemoteHostClosedError then n
      else net_log (''DDX bug: Unhandled network error (QAbstractSocket): '' @
                    quoted (QString_number (socket_error_code err))) n)"

section \<open>Destruction (Network::~Network)\<close>

text \<open>
  \<open>qDeleteAll\<close> over one container (\<open>cont\<close> reads it): each pointer is deleted in
  turn and joins the freed ones \<open>fr\<close>. \<open>QAbstractSocket\<close>'s destructor aborts a socket
  that is not unconnected, which sets it unconnected and emits \<open>disconnected()\<close>; the
  connection to \<open>Network::handleDisconnection\<close> is direct (same thread), so the slot
  runs inside the loop, with the containers still holding the pointers already deleted.
  If the slot changed the container being iterated, the iteration is invalid. Deleting a
  freed pointer again is a double free.
\<close>

fun delete_all ::
  "(network \<Rightarrow> sock_ref list) \<Rightarrow> sock_ref list \<Rightarrow> sock_ref list \<times> network \<Rightarrow> dtor_error + sock_ref list \<times> network" where
  "delete_all cont [] st = Inr st"
| "delete_all cont (x # xs) (fr, n) =
     (if x \<in> set fr then Inl (DoubleFree x)
      else if ts_state (socks n x) = UnconnectedState then delete_all cont xs (fr @ [x], n)
      else let n1 = n\<lparr>socks := (socks n)(x := (socks n x)\<lparr>ts_state := UnconnectedState\<rparr>)\<rparr>
           in case handleDisconnection_in fr n1 of
                Inl e \<Rightarrow> Inl e
              | Inr n2 \<Rightarrow> if cont n2 = cont n then delete_all cont xs (fr @ [x], n2) else Inl ContainerModified)"

text \<open>
  \<open>Network::~Network\<close>: close the server (a pointer that only \<open>init\<close> sets: before
  \<open>init\<close> it is uninitialised), delete the named sockets, then the unregistered ones.
  The result is the list of sockets deleted.
\<close>

definition destroy_Network :: "network \<Rightarrow> dtor_error + sock_ref list" where
  "destroy_Network n =
     (case server n of
        None \<Rightarrow> Inl ServerUninitialised
      | Some srv \<Rightarrow>
          let n1 = n\<lparr>server := Some (srv\<lparr>srv_listening := False\<rparr>)\<rparr>
          in case delete_all (\<lambda>m. map snd (sockets m)) (map snd (sockets n1)) ([], n1) of
               Inl e \<Rightarrow> Inl e
             | Inr st \<Rightarrow> map_sum id fst (delete_all ur_sockets (ur_sockets n1) st))"

section \<open>Field lemmas\<close>

lemma net_log_fields [simp]:
  "socks (net_log m n) = socks n" "ur_sockets (net_log m n) = ur_sockets n"
  "sockets (net_log m n) = sockets n" "server (net_log m n) = server n"
  "quit_code (net_log m n) = quit_code n" "quit_queued (net_log m n) = quit_queued n"
  "net_logs (net_log m n) = net_logs n @ [''network:'' @ m]"
  by (simp_all add: net_log_def)

lemma delete_later_fields [simp]:
  "ts_state (socks (delete_later y n) x) = ts_state (socks n x)"
  "ur_sockets (delete_later y n) = ur_sockets n" "sockets (delete_later y n) = sockets n"
  "net_logs (delete_later y n) = net_logs n" "server (delete_later y n) = server n"
  by (simp_all add: delete_later_def)

lemma fold_delete_later:
  "fold delete_later ys n =
     n\<lparr>socks := (\<lambda>x. if x \<in> set ys then (socks n x)\<lparr>ts_deleteLater := True\<rparr> else socks n x)\<rparr>"
  by (induction ys arbitrary: n) (auto simp: delete_later_def fun_eq_iff)

lemma report_sockets_fields [simp]:
  "socks (report_sockets ks n) = socks n" "ur_sockets (report_sockets ks n) = ur_sockets n"
  "quit_queued (report_sockets ks n) = quit_queued n"
  by (induction ks n rule: report_sockets.induct) simp_all

section \<open>The sweeps are filters\<close>

lemma find_in_prefix [simp]:
  "find (\<lambda>y. y \<in> set p) (p @ q) = (if p = [] then None else Some (hd p))"
  by (cases p) (simp_all add: find_None_iff)

lemma find_append_opt:
  "find P (xs @ ys) = (case find P xs of None \<Rightarrow> find P ys | Some x \<Rightarrow> Some x)"
  by (induction xs) auto

lemma find_nothing_freed [simp]: "find (\<lambda>y. False) xs = None"
  by (simp add: find_None_iff)

lemma sweep_sockets_filter:
  "sweep_sockets fr xs n =
     (case find (\<lambda>y. y \<in> set fr) (map snd xs) of
        Some y \<Rightarrow> Inl (UseAfterFree y)
      | None \<Rightarrow> Inr (filter (\<lambda>(k, x). ts_state (socks n x) \<noteq> UnconnectedState) xs,
                    fold delete_later (map snd (filter (\<lambda>(k, x). ts_state (socks n x) = UnconnectedState) xs)) n))"
proof (induction xs arbitrary: n)
  case Nil
  then show ?case by simp
next
  case (Cons p xs)
  obtain k x where p: "p = (k, x)" by fastforce
  have st: "(\<lambda>(k, x). ts_state (socks (delete_later y n) x) = UnconnectedState) =
            (\<lambda>(k, x). ts_state (socks n x) = UnconnectedState)" for y by auto
  have st': "(\<lambda>(k, x). ts_state (socks (delete_later y n) x) \<noteq> UnconnectedState) =
            (\<lambda>(k, x). ts_state (socks n x) \<noteq> UnconnectedState)" for y by auto
  show ?case using Cons [of "delete_later x n"] Cons [of n] by (simp add: p st st' split: option.split)
qed

lemma sweep_ur_filter:
  "sweep_ur fr i n =
     (case find (\<lambda>y. y \<in> set fr) (drop i (ur_sockets n)) of
        Some y \<Rightarrow> Inl (UseAfterFree y)
      | None \<Rightarrow> Inr (n\<lparr>ur_sockets := take i (ur_sockets n) @
                   filter (\<lambda>x. ts_state (socks n x) \<noteq> UnconnectedState) (drop i (ur_sockets n)),
       socks := (\<lambda>y. if y \<in> set (drop i (ur_sockets n)) \<and> ts_state (socks n y) = UnconnectedState
                      then (socks n y)\<lparr>ts_deleteLater := True\<rparr> else socks n y)\<rparr>))"
proof (induction fr i n rule: sweep_ur.induct)
  case (1 fr i n)
  show ?case
  proof (cases "i < length (ur_sockets n)")
    case True
    define x where "x = ur_sockets n ! i"
    have d: "drop i (ur_sockets n) = x # drop (Suc i) (ur_sockets n)"
      using True by (simp add: x_def Cons_nth_drop_Suc)
    show ?thesis
    proof (cases "x \<in> set fr")
      case fx: True
      then show ?thesis using True by (subst sweep_ur.simps) (simp add: x_def [symmetric] d)
    next
      case nf: False
      show ?thesis
      proof (cases "ts_state (socks n x) = UnconnectedState")
        case un: True
        let ?n1 = "delete_later x (n\<lparr>ur_sockets := take i (ur_sockets n) @ drop (Suc i) (ur_sockets n)\<rparr>)"
        have st: "ts_state (socks ?n1 y) = ts_state (socks n y)" for y
          by (simp add: delete_later_def)
        have u: "take i (ur_sockets ?n1) = take i (ur_sockets n)"
          "drop i (ur_sockets ?n1) = drop (Suc i) (ur_sockets n)"
          using True by (simp_all add: min_def)
        have "sweep_ur fr i n = sweep_ur fr i ?n1"
          using True nf un by (subst sweep_ur.simps) (simp add: x_def Let_def)
        also have "\<dots> = (case find (\<lambda>y. y \<in> set fr) (drop (Suc i) (ur_sockets n)) of
                   Some y \<Rightarrow> Inl (UseAfterFree y)
                 | None \<Rightarrow> Inr (?n1\<lparr>ur_sockets := take i (ur_sockets n) @
                   filter (\<lambda>x. ts_state (socks n x) \<noteq> UnconnectedState) (drop (Suc i) (ur_sockets n)),
                 socks := (\<lambda>y. if y \<in> set (drop (Suc i) (ur_sockets n)) \<and> ts_state (socks n y) = UnconnectedState
                      then (socks ?n1 y)\<lparr>ts_deleteLater := True\<rparr> else socks ?n1 y)\<rparr>))"
          using 1(1) [OF True, of x, OF x_def nf un] by (simp only: st u)
        finally show ?thesis
          using un nf by (auto simp: d delete_later_def fun_eq_iff split: option.split)
      next
        case con: False
        have "sweep_ur fr i n = sweep_ur fr (Suc i) n"
          using True nf con by (subst sweep_ur.simps) (simp add: x_def Let_def)
        with 1(2) [OF True, of x, OF x_def nf con] show ?thesis
          using con nf True by (auto simp: d take_Suc_conv_app_nth x_def [symmetric] fun_eq_iff split: option.split)
      qed
    qed
  next
    case False
    then show ?thesis by (subst sweep_ur.simps) (simp add: fun_eq_iff)
  qed
qed

text \<open>
  The slot run while the pointers \<open>fr\<close> dangle fails at the first of them its loops
  reach, in the order of the containers; otherwise it is the normal slot.
\<close>

lemma sweep_sockets_marks:
  "sweep_sockets fr xs n =
     (case find (\<lambda>y. y \<in> set fr) (map snd xs) of
        Some y \<Rightarrow> Inl (UseAfterFree y)
      | None \<Rightarrow> Inr (filter (\<lambda>(k, x). ts_state (socks n x) \<noteq> UnconnectedState) xs,
                    n\<lparr>socks := (\<lambda>x. if x \<in> set (map snd xs) \<and> ts_state (socks n x) = UnconnectedState
                                     then (socks n x)\<lparr>ts_deleteLater := True\<rparr> else socks n x)\<rparr>))"
  by (auto simp: sweep_sockets_filter fold_delete_later fun_eq_iff image_iff split: option.split
           intro!: network.equality) (metis snd_conv)

lemma ts_state_if_marked [simp]:
  "ts_state (if c then t\<lparr>ts_deleteLater := True\<rparr> else t) = ts_state t"
  by simp

lemma handleDisconnection_in_filter:
  "handleDisconnection_in fr n =
     (case find (\<lambda>y. y \<in> set fr) (map snd (sockets n) @ ur_sockets n) of
        Some y \<Rightarrow> Inl (UseAfterFree y)
      | None \<Rightarrow> Inr (let live = (\<lambda>x. ts_state (socks n x) \<noteq> UnconnectedState);
                        n' = n\<lparr>sockets := filter (\<lambda>(k, x). live x) (sockets n),
                              ur_sockets := filter live (ur_sockets n),
                              socks := (\<lambda>x. if x \<in> set (map snd (sockets n)) \<union> set (ur_sockets n) \<and> \<not> live x
                                            then (socks n x)\<lparr>ts_deleteLater := True\<rparr> else socks n x)\<rparr>
                    in net_log (''Disconnected; there are '' @
                                QString_number (int (length (sockets n') + length (ur_sockets n'))) @
                                '' active connections'') n'))"
proof (cases "find (\<lambda>y. y \<in> set fr) (map snd (sockets n))")
  case (Some y)
  then show ?thesis by (simp add: handleDisconnection_in_def sweep_sockets_filter find_append_opt)
next
  case None
  then show ?thesis
  proof (cases "find (\<lambda>y. y \<in> set fr) (ur_sockets n)")
    case (Some y)
    then show ?thesis using None
      by (simp add: handleDisconnection_in_def sweep_sockets_filter sweep_ur_filter find_append_opt
                    fold_delete_later)
  next
    case None2: None
    have a: "socks (fold delete_later ys n\<lparr>sockets := g\<rparr>) = socks (fold delete_later ys n)" for ys g by simp
    show ?thesis using None None2
      by (simp add: handleDisconnection_in_def sweep_sockets_marks sweep_ur_filter find_append_opt Let_def)
        (rule arg_cong [where f = "net_log _"], rule network.equality, simp_all add: fun_eq_iff)
  qed
qed


lemma handleDisconnection_in_eq:
  "handleDisconnection_in fr n =
     (case find (\<lambda>y. y \<in> set fr) (map snd (sockets n) @ ur_sockets n) of
        Some y \<Rightarrow> Inl (UseAfterFree y)
      | None \<Rightarrow> Inr (network_handleDisconnection n))"
  by (simp add: network_handleDisconnection_def handleDisconnection_in_filter split: option.split)

lemma handleDisconnection_containers:
  "map snd (sockets (network_handleDisconnection n)) =
     filter (\<lambda>x. ts_state (socks n x) \<noteq> UnconnectedState) (map snd (sockets n)) \<and>
   ur_sockets (network_handleDisconnection n) =
     filter (\<lambda>x. ts_state (socks n x) \<noteq> UnconnectedState) (ur_sockets n)"
  by (simp add: network_handleDisconnection_def handleDisconnection_in_filter Let_def filter_map
                comp_def case_prod_unfold)

section \<open>Deleting the sockets\<close>

text \<open>
  Deleting, in the order of the containers, a distinct list \<open>ys\<close> of sockets of the
  container \<open>cont\<close>, after a prefix \<open>fr\<close> of the containers was already freed: all
  unconnected sockets are deleted in turn; the first connected one runs the slot, which
  reads the first socket of the containers, freed unless it is itself that first socket,
  in which case its erasure changes the container the iteration walks.
\<close>

lemma delete_all_run:
  assumes cont: "cont = (\<lambda>m. map snd (sockets m)) \<or> cont = ur_sockets"
    and R: "map snd (sockets n) @ ur_sockets n = fr @ ys @ rest" and dist: "distinct (fr @ ys @ rest)"
    and sub: "set ys \<subseteq> set (cont n)"
  shows "delete_all cont ys (fr, n) =
           (if list_all (\<lambda>x. ts_state (socks n x) = UnconnectedState) ys then Inr (fr @ ys, n)
            else if fr = [] \<and> ts_state (socks n (hd ys)) \<noteq> UnconnectedState then Inl ContainerModified
            else Inl (UseAfterFree (hd (fr @ ys))))"
  using R dist sub
proof (induction ys arbitrary: fr)
  case Nil
  then show ?case by simp
next
  case (Cons x ys)
  have nf: "x \<notin> set fr" using Cons.prems(2) by simp
  show ?case
  proof (cases "ts_state (socks n x) = UnconnectedState")
    case True
    have "delete_all cont ys (fr @ [x], n) =
           (if list_all (\<lambda>x. ts_state (socks n x) = UnconnectedState) ys then Inr (fr @ [x] @ ys, n)
            else Inl (UseAfterFree (hd (fr @ [x] @ ys))))"
      using Cons.IH [of "fr @ [x]"] Cons.prems by simp
    with True nf show ?thesis by simp
  next
    case False
    define n1 where "n1 = n\<lparr>socks := (socks n)(x := (socks n x)\<lparr>ts_state := UnconnectedState\<rparr>)\<rparr>"
    have c1: "map snd (sockets n1) @ ur_sockets n1 = fr @ x # ys @ rest" "cont n1 = cont n"
      using Cons.prems(1) cont by (auto simp: n1_def)
    show ?thesis
    proof (cases "fr = []")
      case True
      have x: "x \<in> set (cont n)" using Cons.prems(3) by simp
      have "x \<notin> set (cont (network_handleDisconnection n1))"
        using cont handleDisconnection_containers [of n1] by (auto simp: n1_def)
      then have "cont (network_handleDisconnection n1) \<noteq> cont n" using x by auto
      then show ?thesis
        using False True by (simp add: handleDisconnection_in_eq c1 n1_def [symmetric] Let_def)
    next
      case fr: False
      then show ?thesis
        using False nf by (simp add: handleDisconnection_in_eq c1 n1_def [symmetric] Let_def)
    qed
  qed
qed

lemma accept_pending_fields:
  "list_all (\<lambda>x. ts_rbuf (socks n x) = []) xs \<Longrightarrow>
   sockets (accept_pending xs n) = sockets n \<and> ur_sockets (accept_pending xs n) = ur_sockets n @ xs \<and>
   socks (accept_pending xs n) = socks n \<and> server (accept_pending xs n) = server n"
  by (induction xs arbitrary: n) (simp_all add: Let_def)

section \<open>Reading one line per socket\<close>

lemma read_ur_sockets_no_exit:
  assumes "distinct xs"
    and "\<forall>x \<in> set xs. canReadLine (ts_rbuf (socks n x)) \<longrightarrow> trimmed (fst (readLine (ts_rbuf (socks n x)))) \<noteq> ''exit''"
  shows "ur_sockets (read_ur_sockets xs n) = ur_sockets n \<and> quit_queued (read_ur_sockets xs n) = quit_queued n \<and>
         (\<forall>x. ts_rbuf (socks (read_ur_sockets xs n) x) =
                (if x \<in> set xs \<and> canReadLine (ts_rbuf (socks n x)) then snd (readLine (ts_rbuf (socks n x)))
                 else ts_rbuf (socks n x)))"
  using assms
proof (induction xs arbitrary: n)
  case Nil
  then show ?case by simp
next
  case (Cons x xs)
  show ?case
  proof (cases "canReadLine (ts_rbuf (socks n x))")
    case True
    obtain l rest where lr: "readLine (ts_rbuf (socks n x)) = (l, rest)" by fastforce
    let ?n1 = "net_log (''Device said '' @ quoted (trimmed l))
                 (n\<lparr>socks := (socks n)(x := (socks n x)\<lparr>ts_rbuf := rest\<rparr>)\<rparr>)"
    have ne: "trimmed l \<noteq> ''exit''" using Cons.prems(2) True lr by simp
    have eq: "read_ur_sockets (x # xs) n = read_ur_sockets xs ?n1"
      using True lr ne by (simp add: Let_def)
    have s1: "socks ?n1 y = (if y = x then (socks n x)\<lparr>ts_rbuf := rest\<rparr> else socks n y)" for y
      by simp
    have "\<forall>y \<in> set xs. canReadLine (ts_rbuf (socks ?n1 y)) \<longrightarrow> trimmed (fst (readLine (ts_rbuf (socks ?n1 y)))) \<noteq> ''exit''"
      using Cons.prems by (auto simp: s1)
    then have IH: "ur_sockets (read_ur_sockets xs ?n1) = ur_sockets n \<and> quit_queued (read_ur_sockets xs ?n1) = quit_queued n \<and>
         (\<forall>y. ts_rbuf (socks (read_ur_sockets xs ?n1) y) =
                (if y \<in> set xs \<and> canReadLine (ts_rbuf (socks ?n1 y)) then snd (readLine (ts_rbuf (socks ?n1 y)))
                 else ts_rbuf (socks ?n1 y)))"
      using Cons.IH [of ?n1] Cons.prems(1) by simp
    show ?thesis using IH Cons.prems(1) lr True unfolding eq by (auto simp: s1)
  next
    case False
    then show ?thesis using Cons by auto
  qed
qed

section \<open>Properties of the listener\<close>

lemma unat_word_of_int_16: "unat (word_of_int p :: 16 word) = nat (p mod 65536)"
  by (simp add: unat_eq_nat_uint uint_word_of_int_eq take_bit_eq_mod)

text \<open>
  C27: \<open>init\<close> either listens on the loopback address (or on every address when
  external management is allowed) at the configured port taken modulo \<open>2^16\<close> (the
  \<open>int\<close> setting is narrowed to the \<open>quint16\<close> of \<open>listen\<close>), without quitting; or,
  when \<open>listen\<close> fails, logs the error once and makes the daemon quit with
  \<open>E_TCP_SERVER_FAILED\<close>, with no server listening.
\<close>

theorem init_binds_or_quits:
  "(listenOk \<longrightarrow>
      (\<exists>srv. server (init st listenOk err n) = Some srv \<and> srv_listening srv \<and>
             srv_address srv = (if AllowExternalManagement st then BindAny else BindLocalHost) \<and>
             unat (srv_port srv) = nat (GUIPort st mod 65536)) \<and>
      quit_code (init st listenOk err n) = quit_code n) \<and>
   (\<not> listenOk \<longrightarrow>
      quit_code (init st listenOk err n) = Some E_TCP_SERVER_FAILED \<and>
      map_option srv_listening (server (init st listenOk err n)) = Some False \<and>
      length (net_logs (init st listenOk err n)) = Suc (length (net_logs n)))"
  by (simp add: init_def Let_def unat_word_of_int_16)

text \<open>
  C8: \<open>network_handleDisconnection\<close>'s two removal loops (the iterator loop over the hash
  and the index loop over \<open>ur_sockets\<close> that does not advance after \<open>removeAt\<close>) are
  the filters that keep exactly the sockets not in \<open>UnconnectedState\<close>, in order; exactly
  the removed sockets are scheduled for deletion, and the count logged is the number
  kept.
\<close>

theorem handleDisconnection_keeps_connected:
  "let n' = network_handleDisconnection n; live = (\<lambda>x. ts_state (socks n x) \<noteq> UnconnectedState)
   in sockets n' = filter (\<lambda>(k, x). live x) (sockets n) \<and> ur_sockets n' = filter live (ur_sockets n) \<and>
      (\<forall>x. socks n' x =
             (if x \<in> set (map snd (sockets n)) \<union> set (ur_sockets n) \<and> \<not> live x
              then (socks n x)\<lparr>ts_deleteLater := True\<rparr> else socks n x)) \<and>
      net_logs n' = net_logs n @
        [''network:Disconnected; there are '' @
         QString_number (int (length (filter (\<lambda>(k, x). live x) (sockets n)) + length (filter live (ur_sockets n)))) @
         '' active connections'']"
  by (simp add: network_handleDisconnection_def handleDisconnection_in_filter Let_def)

text \<open>
  C28: when no unregistered socket says \<open>exit\<close>, one \<open>network_handleData\<close> takes exactly one
  line from each unregistered socket that has one, however many complete lines it holds;
  the others stay buffered until the next \<open>readyRead\<close>.
\<close>

theorem handleData_one_line_each:
  assumes "distinct (ur_sockets n)"
    and "\<forall>x \<in> set (ur_sockets n). canReadLine (ts_rbuf (socks n x)) \<longrightarrow>
           trimmed (fst (readLine (ts_rbuf (socks n x)))) \<noteq> ''exit''"
  shows "ur_sockets (network_handleData n) = ur_sockets n \<and> quit_queued (network_handleData n) = quit_queued n \<and>
         (\<forall>x \<in> set (ur_sockets n). ts_rbuf (socks (network_handleData n) x) =
            (if canReadLine (ts_rbuf (socks n x)) then snd (readLine (ts_rbuf (socks n x)))
             else ts_rbuf (socks n x)))"
  using read_ur_sockets_no_exit [of "ur_sockets n" "report_sockets (sockets n) n"] assms
  by (simp add: network_handleData_def)

text \<open>
  C35: destroying a listener whose server exists deletes every socket, in the order of
  the hash and then of \<open>ur_sockets\<close>, only when all of them are unconnected. A socket
  still connected (which \<open>shutdown\<close> does not prevent) emits \<open>disconnected\<close> from its
  destructor: \<open>handleDisconnection\<close> then reads the first socket of the containers after
  it was freed, or, when the first socket is itself the connected one, erases it from the
  container \<open>qDeleteAll\<close> is iterating.
\<close>

theorem destroy_Network_result:
  assumes srv: "server n \<noteq> None" and dist: "distinct (map snd (sockets n) @ ur_sockets n)"
  shows "destroy_Network n =
           (let xs = map snd (sockets n) @ ur_sockets n
            in if list_all (\<lambda>x. ts_state (socks n x) = UnconnectedState) xs then Inr xs
               else if ts_state (socks n (hd xs)) = UnconnectedState then Inl (UseAfterFree (hd xs))
               else Inl ContainerModified)"
proof -
  obtain sv where sv: "server n = Some sv" using srv by auto
  define n1 where "n1 = n\<lparr>server := Some (sv\<lparr>srv_listening := False\<rparr>)\<rparr>"
  have f: "sockets n1 = sockets n" "ur_sockets n1 = ur_sockets n" "socks n1 = socks n"
    by (simp_all add: n1_def)
  let ?A = "map snd (sockets n)" and ?B = "ur_sockets n"
  let ?un = "\<lambda>x. ts_state (socks n x) = UnconnectedState"
  have R: "map snd (sockets n1) @ ur_sockets n1 = [] @ ?A @ ?B" "map snd (sockets n1) @ ur_sockets n1 = ?A @ ?B @ []"
    by (simp_all add: f)
  have d: "distinct ([] @ ?A @ ?B)" "distinct (?A @ ?B @ [])" using dist by simp_all
  have pass1: "delete_all (\<lambda>m. map snd (sockets m)) ?A ([], n1) =
           (if list_all ?un ?A then Inr (?A, n1)
            else if \<not> ?un (hd ?A) then Inl ContainerModified else Inl (UseAfterFree (hd ?A)))"
    using delete_all_run [of "\<lambda>m. map snd (sockets m)" n1 "[]" ?A ?B] R(1) d(1) by (simp add: f)
  have pass2: "delete_all ur_sockets ?B (?A, n1) =
           (if list_all ?un ?B then Inr (?A @ ?B, n1)
            else if ?A = [] \<and> \<not> ?un (hd ?B) then Inl ContainerModified else Inl (UseAfterFree (hd (?A @ ?B))))"
    using delete_all_run [of ur_sockets n1 ?A ?B "[]"] R(2) d(2) by (simp add: f)
  have "destroy_Network n =
          (case delete_all (\<lambda>m. map snd (sockets m)) (map snd (sockets n1)) ([], n1) of
             Inl e \<Rightarrow> Inl e | Inr st \<Rightarrow> map_sum id fst (delete_all ur_sockets (ur_sockets n1) st))"
    by (simp add: destroy_Network_def sv n1_def [symmetric])
  also have "\<dots> = (if list_all ?un ?A then map_sum id fst (delete_all ur_sockets ?B (?A, n1))
                    else if \<not> ?un (hd ?A) then Inl ContainerModified else Inl (UseAfterFree (hd ?A)))"
    unfolding f by (simp add: pass1)
  also have "\<dots> = (if list_all ?un ?A then
                      (if list_all ?un ?B then Inr (?A @ ?B)
                       else if ?A = [] \<and> \<not> ?un (hd ?B) then Inl ContainerModified
                       else Inl (UseAfterFree (hd (?A @ ?B))))
                    else if \<not> ?un (hd ?A) then Inl ContainerModified else Inl (UseAfterFree (hd ?A)))"
    by (simp add: pass2)
  finally show ?thesis
    by (cases "?A") (auto simp: Let_def)
qed

section \<open>Witnesses\<close>

theorem init_binds_or_quits_witness:
  "True \<and> unat (srv_port (the (server (init \<lparr>GUIPort = 70000, AllowExternalManagement = False\<rparr> True [] (init_Network (\<lambda>x. \<lparr>ts_state = UnconnectedState, ts_peer = NullAddress, ts_rbuf = [], ts_deleteLater = False\<rparr>)))))) = 4464 \<and>
   \<not> False \<and> quit_code (init \<lparr>GUIPort = 4388, AllowExternalManagement = False\<rparr> False ''Address in use'' (init_Network (\<lambda>x. \<lparr>ts_state = UnconnectedState, ts_peer = NullAddress, ts_rbuf = [], ts_deleteLater = False\<rparr>))) =
     Some E_TCP_SERVER_FAILED"
proof -
  have a: "unat (srv_port (the (server (init \<lparr>GUIPort = 70000, AllowExternalManagement = False\<rparr> True [] (init_Network (\<lambda>x. \<lparr>ts_state = UnconnectedState, ts_peer = NullAddress, ts_rbuf = [], ts_deleteLater = False\<rparr>)))))) = 4464"
    using init_binds_or_quits [of True "\<lparr>GUIPort = 70000, AllowExternalManagement = False\<rparr>" "[]" "init_Network (\<lambda>x. \<lparr>ts_state = UnconnectedState, ts_peer = NullAddress, ts_rbuf = [], ts_deleteLater = False\<rparr>)"]
    by auto
  have b: "quit_code (init \<lparr>GUIPort = 4388, AllowExternalManagement = False\<rparr> False ''Address in use'' (init_Network (\<lambda>x. \<lparr>ts_state = UnconnectedState, ts_peer = NullAddress, ts_rbuf = [], ts_deleteLater = False\<rparr>))) =
     Some E_TCP_SERVER_FAILED"
    using init_binds_or_quits [of False "\<lparr>GUIPort = 4388, AllowExternalManagement = False\<rparr>" "''Address in use''" "init_Network (\<lambda>x. \<lparr>ts_state = UnconnectedState, ts_peer = NullAddress, ts_rbuf = [], ts_deleteLater = False\<rparr>)"]
    by simp
  from a b show ?thesis by simp
qed

theorem handleData_one_line_each_witness:
  "let sk = \<lparr>ts_state = ConnectedState, ts_peer = LocalHost, ts_rbuf = ''hello\<newline>again\<newline>'', ts_deleteLater = False\<rparr>;
       n = (init_Network (\<lambda>x. sk))\<lparr>ur_sockets := [3]\<rparr>
   in distinct (ur_sockets n) \<and>
      (\<forall>x \<in> set (ur_sockets n). canReadLine (ts_rbuf (socks n x)) \<longrightarrow>
           trimmed (fst (readLine (ts_rbuf (socks n x)))) \<noteq> ''exit'') \<and>
      ts_rbuf (socks (network_handleData n) 3) = ''again\<newline>'' \<and> canReadLine (ts_rbuf (socks (network_handleData n) 3))"
proof -
  define sk where "sk = \<lparr>ts_state = ConnectedState, ts_peer = LocalHost, ts_rbuf = ''hello\<newline>again\<newline>'', ts_deleteLater = False\<rparr>"
  define n where "n = (init_Network (\<lambda>x. sk))\<lparr>ur_sockets := [3]\<rparr>"
  have r: "readLine (ts_rbuf (socks n 3)) = (''hello\<newline>'', ''again\<newline>'')"
    by (simp add: n_def sk_def init_Network_def readLine_def)
  have t: "trimmed ''hello\<newline>'' = ''hello''"
    by (simp add: trimmed_def isSpace_def)
  have c: "canReadLine (ts_rbuf (socks n 3))" "canReadLine ''again\<newline>''"
    by (simp_all add: n_def sk_def init_Network_def canReadLine_def)
  have h: "distinct (ur_sockets n)"
    "\<forall>x \<in> set (ur_sockets n). canReadLine (ts_rbuf (socks n x)) \<longrightarrow>
           trimmed (fst (readLine (ts_rbuf (socks n x)))) \<noteq> ''exit''"
    using r t by (simp_all add: n_def init_Network_def)
  have u: "3 \<in> set (ur_sockets n)" by (simp add: n_def)
  show ?thesis unfolding Let_def sk_def [symmetric] n_def [symmetric]
    using h c r u handleData_one_line_each [OF h] by simp
qed



theorem destroy_Network_result_witness:
  "let h = (\<lambda>x. \<lparr>ts_state = (if x = 1 then UnconnectedState else ConnectedState), ts_peer = LocalHost,
                   ts_rbuf = [], ts_deleteLater = False\<rparr>);
       n1 = init \<lparr>GUIPort = 4464, AllowExternalManagement = False\<rparr> True [] (init_Network h);
       n2 = shutdown (handleConnection (n1\<lparr>server := map_option (\<lambda>sv. sv\<lparr>srv_pending := [1, 2]\<rparr>) (server n1)\<rparr>))
   in server n2 \<noteq> None \<and> distinct (map snd (sockets n2) @ ur_sockets n2) \<and>
      ur_sockets n2 = [1, 2] \<and> destroy_Network n2 = Inl (UseAfterFree 1)"
proof -
  define h where "h = (\<lambda>x. \<lparr>ts_state = (if x = (1::nat) then UnconnectedState else ConnectedState),
                   ts_peer = LocalHost, ts_rbuf = [], ts_deleteLater = False\<rparr>)"
  define n1 where "n1 = init \<lparr>GUIPort = 4464, AllowExternalManagement = False\<rparr> True [] (init_Network h)"
  define n2 where "n2 = shutdown (handleConnection (n1\<lparr>server := map_option (\<lambda>sv. sv\<lparr>srv_pending := [1, 2]\<rparr>) (server n1)\<rparr>))"
  have f1: "sockets n1 = []" "ur_sockets n1 = []" "socks n1 = h"
    by (simp_all add: n1_def init_def init_Network_def Let_def)
  obtain sv where sv: "server n1 = Some sv" by (simp add: n1_def init_def Let_def)
  have "list_all (\<lambda>x. ts_rbuf (socks n1 x) = []) [1, 2]" by (simp add: f1 h_def)
  then have f2: "server n2 \<noteq> None" "sockets n2 = []" "ur_sockets n2 = [1, 2]" "socks n2 = h"
    using f1 sv accept_pending_fields [of "n1\<lparr>server := Some (sv\<lparr>srv_pending := [], srv_children := srv_children sv + 2\<rparr>)\<rparr>" "[1, 2]"]
    by (simp_all add: n2_def shutdown_def handleConnection_def Let_def)
  have d: "distinct (map snd (sockets n2) @ ur_sockets n2)" by (simp add: f2)
  have "destroy_Network n2 = Inl (UseAfterFree 1)"
    using destroy_Network_result [OF f2(1) d] by (simp add: f2 h_def)
  with f2 d show ?thesis unfolding Let_def h_def [symmetric] n1_def [symmetric] n2_def [symmetric] by simp
qed

end
