(* ===== verification/Pipeline.thy ===== *)
theory Pipeline
  imports Qt_Text
begin

text \<open>
  The daemon's pipeline registry as far as the sources implement it: class \<open>Path\<close> of
  \<open>src/DDX-daemon/path.cpp\<close> (its flags, the alerts it emits, the module lookup and the
  generation of default module names) and the \<open>Column\<close> struct of
  \<open>src/DDX-daemon/data.h\<close>. Modules are references (\<open>Module*\<close>).
\<close>

type_synonym module_ref = nat

section \<open>Columns (data.h)\<close>

text \<open>\<open>struct Column\<close>: the data buffer, the column's name and its parent module.\<close>

record column =
  col_c :: string
  col_n :: string
  col_p :: "module_ref option"

definition Column :: "string \<Rightarrow> module_ref option \<Rightarrow> column" where
  "Column name parent = \<lparr>col_c = [], col_n = name, col_p = parent\<rparr>"

text \<open>\<open>Column::buffer()\<close> hands out the address of \<open>c\<close> (field \<open>col_c\<close>): a write through it updates it.\<close>

definition write_buffer :: "(string \<Rightarrow> string) \<Rightarrow> column \<Rightarrow> column" where
  "write_buffer f col = col\<lparr>col_c := f (col_c col)\<rparr>"

type_synonym DataDef = "column list"
type_synonym ModuleList = "module_ref list"

section \<open>Paths (path.cpp)\<close>

record path =
  path_ready :: bool
  running :: bool
  path_name :: string
  alerts :: "string list"
  finished_count :: nat

text \<open>\<open>Path::Path\<close>: neither ready nor running.\<close>

definition init_Path :: "string \<Rightarrow> path" where
  "init_Path name = \<lparr>path_ready = False, running = False, path_name = name, alerts = [], finished_count = 0\<rparr>"

text \<open>\<open>Path::~Path\<close>: emits \<open>finished()\<close>.\<close>

definition destroy_Path :: "path \<Rightarrow> path" where
  "destroy_Path pa = pa\<lparr>finished_count := Suc (finished_count pa)\<rparr>"

text \<open>\<open>Path::findModule\<close> is a stub: it clears its argument and returns the null pointer.\<close>

definition findModule :: "path \<Rightarrow> string \<Rightarrow> module_ref option" where
  "findModule pa name = None"

text \<open>
  The loop of \<open>Path::getDefaultModuleName\<close>, over any module lookup \<open>lookup\<close>: increment
  the C \<open>int\<close> counter, form \<open>type\<close> followed by the counter in decimal, and repeat
  while a module of that name exists. A lookup that finds every name makes the loop run
  forever (\<open>None\<close>).
\<close>

partial_function (option) default_name_loop ::
  "(string \<Rightarrow> module_ref option) \<Rightarrow> string \<Rightarrow> 32 word \<Rightarrow> string option" where
  "default_name_loop lookup type i =
     (let i' = i + 1; nm = type @ QString_number (sint i')
      in if lookup nm \<noteq> None then default_name_loop lookup type i' else Some nm)"

definition getDefaultModuleName :: "path \<Rightarrow> string \<Rightarrow> string option" where
  "getDefaultModuleName pa type = default_name_loop (findModule pa) type 0"

text \<open>
  \<open>Path::alert\<close> builds \<open>name[:module]: msg\<close> in \<open>out\<close> but emits \<open>msg\<close>.
\<close>

definition alert_out :: "path \<Rightarrow> string \<Rightarrow> string option \<Rightarrow> string" where
  "alert_out pa msg m =
     path_name pa @ (case m of None \<Rightarrow> [] | Some mn \<Rightarrow> '':'' @ mn) @ '': '' @ msg"

definition alert :: "string \<Rightarrow> string option \<Rightarrow> path \<Rightarrow> path" where
  "alert msg m pa = (let out = alert_out pa msg m in pa\<lparr>alerts := alerts pa @ [msg]\<rparr>)"

section \<open>Default module names\<close>

lemma default_name_loop_step:
  "default_name_loop lookup type i =
     (if lookup (type @ QString_number (sint (i + 1))) \<noteq> None
      then default_name_loop lookup type (i + 1) else Some (type @ QString_number (sint (i + 1))))"
  by (subst default_name_loop.simps) (simp add: Let_def)

text \<open>Distinct counters give distinct candidate names, so they cannot all be taken.\<close>

lemma candidates_le_card:
  assumes "finite S" and "\<forall>k. 1 \<le> k \<and> k \<le> j \<longrightarrow> type @ QString_number k \<in> S"
  shows "nat j \<le> card S"
proof -
  have "inj_on (\<lambda>k. type @ QString_number k) {1..j}" by (rule inj_onI) simp
  moreover have "(\<lambda>k. type @ QString_number k) ` {1..j} \<subseteq> S" using assms(2) by auto
  ultimately have "card {1..j} \<le> card S" using assms(1) by (rule card_inj_on_le)
  then show ?thesis by simp
qed

lemma default_name_loop_returns:
  assumes fin: "finite {nm. lookup nm \<noteq> None}" and small: "card {nm. lookup nm \<noteq> None} < 2 ^ 31 - 1"
  shows "sint i = j \<Longrightarrow> 0 \<le> j \<Longrightarrow> (\<forall>k. 1 \<le> k \<and> k \<le> j \<longrightarrow> lookup (type @ QString_number k) \<noteq> None) \<Longrightarrow>
         \<exists>r k. default_name_loop lookup type i = Some r \<and> lookup r = None \<and>
               j < k \<and> k \<le> int (card {nm. lookup nm \<noteq> None}) + 1 \<and> r = type @ QString_number k"
proof (induction "nat (int (card {nm. lookup nm \<noteq> None}) - j)" arbitrary: i j rule: less_induct)
  case less
  let ?S = "{nm. lookup nm \<noteq> None}"
  have le: "nat j \<le> card ?S"
    using candidates_le_card [OF fin, of j type] less.prems(3) by auto
  have small': "card ?S < 2147483647" using small by simp
  have "j \<le> int (card ?S)" using le less.prems(2) by (simp add: nat_le_iff)
  then have "sint i < 2147483647" using small' less.prems(1) by linarith
  then have "sint i < 2 ^ 31 - 1" by simp
  then have i1: "sint (i + 1) = j + 1"
    using sint_incr_32 [of i] less.prems(1) by simp
  show ?case
  proof (cases "lookup (type @ QString_number (j + 1)) \<noteq> None")
    case True
    have all: "\<forall>k. 1 \<le> k \<and> k \<le> j + 1 \<longrightarrow> lookup (type @ QString_number k) \<noteq> None"
      using less.prems(3) True by (metis add.commute int_one_le_iff_zero_less order_le_less zless_add1_eq)
    have "nat (j + 1) \<le> card ?S"
      using candidates_le_card [OF fin, of "j + 1" type] all by auto
    then have "nat (int (card ?S) - (j + 1)) < nat (int (card ?S) - j)"
      using less.prems(2) by linarith
    from less.hyps [OF this i1 _ all] less.prems(2)
    obtain r k where "default_name_loop lookup type (i + 1) = Some r" "lookup r = None"
      "j + 1 < k" "k \<le> int (card ?S) + 1" "r = type @ QString_number k" by auto
    then show ?thesis using True i1 by (subst default_name_loop_step) auto
  next
    case False
    then show ?thesis using i1 le less.prems(2) by (subst default_name_loop_step) auto
  qed
qed

section \<open>Properties of the pipeline registry\<close>

text \<open>
  C29: as long as the modules a lookup finds are finitely many (fewer than the
  largest C \<open>int\<close>), the loop of \<open>getDefaultModuleName\<close> terminates: it returns
  \<open>type\<close> followed by the first counter whose name is free, a name the lookup does not
  find, with a counter at most one more than the number of taken names. With the
  present stub \<open>findModule\<close> the name is \<open>type1\<close>.
\<close>

theorem getDefaultModuleName_terminates:
  assumes "finite {nm. lookup nm \<noteq> None}" and "card {nm. lookup nm \<noteq> None} < 2 ^ 31 - 1"
  shows "(\<exists>r k. default_name_loop lookup type 0 = Some r \<and> lookup r = None \<and>
            1 \<le> k \<and> k \<le> int (card {nm. lookup nm \<noteq> None}) + 1 \<and> r = type @ QString_number k) \<and>
         getDefaultModuleName pa type = Some (type @ ''1'')"
proof -
  have "\<exists>r k. default_name_loop lookup type 0 = Some r \<and> lookup r = None \<and>
            0 < k \<and> k \<le> int (card {nm. lookup nm \<noteq> None}) + 1 \<and> r = type @ QString_number k"
    by (rule default_name_loop_returns [OF assms, where i = 0 and j = 0]) auto
  moreover have "getDefaultModuleName pa type = Some (type @ ''1'')"
    by (simp add: getDefaultModuleName_def findModule_def default_name_loop_step QString_number_def)
  ultimately show ?thesis by force
qed

section \<open>Witnesses\<close>

theorem getDefaultModuleName_terminates_witness:
  "let lk = (\<lambda>nm. if nm \<in> {''Avg1'', ''Avg2''} then Some (0::nat) else None)
   in finite {nm. lk nm \<noteq> None} \<and> card {nm. lk nm \<noteq> None} < 2 ^ 31 - 1 \<and>
      (\<exists>r. default_name_loop lk ''Avg'' 0 = Some r \<and> r \<notin> {''Avg1'', ''Avg2''})"
proof -
  define lk where "lk = (\<lambda>nm. if nm \<in> {''Avg1'', ''Avg2''} then Some (0::nat) else None)"
  have s: "{nm. lk nm \<noteq> None} = {''Avg1'', ''Avg2''}" by (auto simp: lk_def)
  have h: "finite {nm. lk nm \<noteq> None}" "card {nm. lk nm \<noteq> None} < 2 ^ 31 - 1"
    unfolding s by simp_all
  obtain r where "default_name_loop lk ''Avg'' 0 = Some r" "lk r = None"
    using getDefaultModuleName_terminates [OF h, of "''Avg''"] by blast
  then show ?thesis unfolding Let_def lk_def [symmetric]
    using h by (auto simp: lk_def split: if_splits)
qed

end
