(* ===== verification/Json_Text.thy ===== *)
theory Json_Text
  imports NetDev
begin

text \<open>
  The JSON text under the wire format: \<open>RemDev\<close> writes each message's document with
  RapidJSON's \<open>Writer\<close> (no white space), sends it followed by one line feed, and reads
  every received line back with RapidJSON's \<open>Reader\<close>. Neither RapidJSON nor
  \<open>remdev.cpp\<close> is part of the sources, so these definitions follow the JSON grammar and
  RapidJSON's documented behaviour on the values of \<open>jvalue\<close> (integral numbers, strings
  of single-byte characters). The reader is a recursive descent with explicit fuel; twice the
  length of the text is enough fuel. The lemmas show that the reader inverts the writer for
  every document (\<open>parse_write\<close>) and that a written document never contains a line
  feed, so a frame is exactly one line of the stream.
\<close>

section \<open>Writing (rapidjson::Writer)\<close>

definition hex_char :: "nat \<Rightarrow> char" where
  "hex_char d = (if d < 10 then digit_char d else char_of (55 + d))"

text \<open>
  \<open>Writer::WriteString\<close>: the quotation mark (0x22) and the backslash (0x5C) are
  escaped, so are the control characters below 0x20 (by their short form where JSON has
  one, otherwise as \<open>\u00XX\<close> with upper-case hex digits); every other byte is copied.
\<close>

fun escape_char :: "char \<Rightarrow> string" where
  "escape_char c =
     (if c = CHR 0x22 then [CHR 0x5C, CHR 0x22]
      else if c = CHR 0x5C then [CHR 0x5C, CHR 0x5C]
      else if c = CHR 0x08 then [CHR 0x5C, CHR ''b'']
      else if c = CHR 0x09 then [CHR 0x5C, CHR ''t'']
      else if c = CHR 0x0A then [CHR 0x5C, CHR ''n'']
      else if c = CHR 0x0C then [CHR 0x5C, CHR ''f'']
      else if c = CHR 0x0D then [CHR 0x5C, CHR ''r'']
      else if of_char c < (32::nat)
      then [CHR 0x5C, CHR ''u'', CHR ''0'', CHR ''0'', hex_char (of_char c div 16), hex_char (of_char c mod 16)]
      else [c])"

definition write_string :: "string \<Rightarrow> string" where
  "write_string str = CHR 0x22 # concat (map escape_char str) @ [CHR 0x22]"

fun write_value :: "jvalue \<Rightarrow> string"
  and write_elems :: "jvalue list \<Rightarrow> string"
  and write_members :: "(string \<times> jvalue) list \<Rightarrow> string" where
  "write_value JNull = ''null''"
| "write_value (JBool b) = (if b then ''true'' else ''false'')"
| "write_value (JInt i) = QString_number i"
| "write_value (JString str) = write_string str"
| "write_value (JArray vs) = CHR ''['' # write_elems vs"
| "write_value (JObject ms) = CHR ''{'' # write_members ms"
| "write_elems [] = '']''"
| "write_elems [v] = write_value v @ '']''"
| "write_elems (v # w # vs) = write_value v @ CHR '','' # write_elems (w # vs)"
| "write_members [] = ''}''"
| "write_members [(k, v)] = write_string k @ CHR '':'' # write_value v @ ''}''"
| "write_members ((k, v) # m # ms) = write_string k @ CHR '':'' # write_value v @ CHR '','' # write_members (m # ms)"

section \<open>Reading (rapidjson::Reader)\<close>

definition is_ws :: "char \<Rightarrow> bool" where
  "is_ws c \<longleftrightarrow> c = CHR '' '' \<or> c = CHR 0x0A \<or> c = CHR 0x0D \<or> c = CHR 0x09"

definition skip_ws :: "string \<Rightarrow> string" where
  "skip_ws str = dropWhile is_ws str"

definition is_digit :: "char \<Rightarrow> bool" where
  "is_digit c \<longleftrightarrow> (let n = (of_char c :: nat) in 48 \<le> n \<and> n \<le> 57)"

definition hex_val :: "char \<Rightarrow> nat option" where
  "hex_val c =
     (let n = (of_char c :: nat)
      in if 48 \<le> n \<and> n \<le> 57 then Some (n - 48)
         else if 65 \<le> n \<and> n \<le> 70 then Some (n - 55)
         else if 97 \<le> n \<and> n \<le> 102 then Some (n - 87)
         else None)"

fun unescape :: "char \<Rightarrow> char option" where
  "unescape e =
     (if e = CHR 0x22 \<or> e = CHR 0x5C \<or> e = CHR ''/'' then Some e
      else if e = CHR ''b'' then Some (CHR 0x08)
      else if e = CHR ''f'' then Some (CHR 0x0C)
      else if e = CHR ''n'' then Some (CHR 0x0A)
      else if e = CHR ''r'' then Some (CHR 0x0D)
      else if e = CHR ''t'' then Some (CHR 0x09)
      else None)"

definition cons_fst :: "'a \<Rightarrow> ('a list \<times> 'b) option \<Rightarrow> ('a list \<times> 'b) option" where
  "cons_fst x r = map_option (\<lambda>(xs, rest). (x # xs, rest)) r"

text \<open>
  \<open>Reader::ParseString\<close> after the opening quotation mark, up to and including the closing
  one. Unescaped control characters are rejected; \<open>\uXXXX\<close> is read for code points
  below 0x80 (the escapes the writer produces); other code points are not modelled and
  rejected.
\<close>

fun parse_str :: "string \<Rightarrow> (string \<times> string) option" where
  "parse_str [] = None"
| "parse_str (c # cs) =
     (if c = CHR 0x22 then Some ([], cs)
      else if c = CHR 0x5C then
        (case cs of
           [] \<Rightarrow> None
         | e # r \<Rightarrow>
             if e = CHR ''u'' then
               (case r of
                  a # b # d # f # r' \<Rightarrow>
                    (case (hex_val a, hex_val b, hex_val d, hex_val f) of
                       (Some x1, Some x2, Some x3, Some x4) \<Rightarrow>
                         let v = ((x1 * 16 + x2) * 16 + x3) * 16 + x4
                         in if v < 128 then cons_fst (char_of v) (parse_str r') else None
                     | _ \<Rightarrow> None)
                | _ \<Rightarrow> None)
             else (case unescape e of None \<Rightarrow> None | Some ch \<Rightarrow> cons_fst ch (parse_str r)))
      else if of_char c < (32::nat) then None
      else cons_fst c (parse_str cs))"

text \<open>
  Integral numbers: an optional minus sign, then either a single zero or a non-zero digit
  followed by digits.
\<close>

definition parse_nat :: "string \<Rightarrow> (nat \<times> string) option" where
  "parse_nat str =
     (case str of
        [] \<Rightarrow> None
      | c # r \<Rightarrow> if c = CHR ''0'' then Some (0, r)
                 else if is_digit c then Some (parse_digits (takeWhile is_digit str), dropWhile is_digit str)
                 else None)"

definition parse_number :: "string \<Rightarrow> (int \<times> string) option" where
  "parse_number str =
     (case str of
        [] \<Rightarrow> None
      | c # r \<Rightarrow> if c = CHR ''-'' then map_option (\<lambda>(k, r'). (- int k, r')) (parse_nat r)
                 else map_option (\<lambda>(k, r'). (int k, r')) (parse_nat str))"

text \<open>
  The recursive descent over values, array elements and object members. Every call
  consumes input or hands it to a call that does, so twice the length of the text is enough fuel (\<open>json_parse\<close>).
\<close>

fun parse_value :: "nat \<Rightarrow> string \<Rightarrow> (jvalue \<times> string) option"
  and parse_elems :: "nat \<Rightarrow> string \<Rightarrow> (jvalue list \<times> string) option"
  and parse_members :: "nat \<Rightarrow> string \<Rightarrow> ((string \<times> jvalue) list \<times> string) option" where
  "parse_value 0 str = None"
| "parse_value (Suc n) str =
     (case skip_ws str of
        [] \<Rightarrow> None
      | c # r \<Rightarrow>
          if c = CHR ''n'' then (if take 3 r = ''ull'' then Some (JNull, drop 3 r) else None)
          else if c = CHR ''t'' then (if take 3 r = ''rue'' then Some (JBool True, drop 3 r) else None)
          else if c = CHR ''f'' then (if take 4 r = ''alse'' then Some (JBool False, drop 4 r) else None)
          else if c = CHR 0x22 then map_option (\<lambda>(x, r'). (JString x, r')) (parse_str r)
          else if c = CHR ''['' then
            (let r0 = skip_ws r
             in if r0 \<noteq> [] \<and> hd r0 = CHR '']'' then Some (JArray [], tl r0)
                else map_option (\<lambda>(vs, r'). (JArray vs, r')) (parse_elems n r))
          else if c = CHR ''{'' then
            (let r0 = skip_ws r
             in if r0 \<noteq> [] \<and> hd r0 = CHR ''}'' then Some (JObject [], tl r0)
                else map_option (\<lambda>(ms, r'). (JObject ms, r')) (parse_members n r))
          else if c = CHR ''-'' \<or> is_digit c then map_option (\<lambda>(i, r'). (JInt i, r')) (parse_number (c # r))
          else None)"
| "parse_elems 0 str = None"
| "parse_elems (Suc n) str =
     (case parse_value n str of
        None \<Rightarrow> None
      | Some (v, r) \<Rightarrow>
          (case skip_ws r of
             [] \<Rightarrow> None
           | c # r' \<Rightarrow> if c = CHR '','' then cons_fst v (parse_elems n r')
                       else if c = CHR '']'' then Some ([v], r') else None))"
| "parse_members 0 str = None"
| "parse_members (Suc n) str =
     (case skip_ws str of
        [] \<Rightarrow> None
      | c # r \<Rightarrow>
          if c \<noteq> CHR 0x22 then None
          else case parse_str r of
            None \<Rightarrow> None
          | Some (k, r1) \<Rightarrow>
              (case skip_ws r1 of
                 [] \<Rightarrow> None
               | c1 # r2 \<Rightarrow>
                   if c1 \<noteq> CHR '':'' then None
                   else case parse_value n r2 of
                     None \<Rightarrow> None
                   | Some (v, r3) \<Rightarrow>
                       (case skip_ws r3 of
                          [] \<Rightarrow> None
                        | c2 # r4 \<Rightarrow> if c2 = CHR '','' then cons_fst (k, v) (parse_members n r4)
                                     else if c2 = CHR ''}'' then Some ([(k, v)], r4) else None)))"

text \<open>A whole document: one value, then only white space (\<open>kParseDefaultFlags\<close>).\<close>

definition json_parse :: "string \<Rightarrow> jvalue option" where
  "json_parse str =
     (case parse_value (2 * length str) str of
        None \<Rightarrow> None
      | Some (v, r) \<Rightarrow> if skip_ws r = [] then Some v else None)"

text \<open>\<open>RemDev::sendDocument\<close>: the written document followed by one line feed.\<close>

definition json_frame :: "jvalue \<Rightarrow> string" where
  "json_frame v = write_value v @ [CHR 0x0A]"

section \<open>Reading back what the writer wrote\<close>

definition stops :: "string \<Rightarrow> bool" where
  "stops r \<longleftrightarrow> r = [] \<or> \<not> is_digit (hd r)"

lemma char_of_nat_lt [simp]: "n < 256 \<Longrightarrow> of_char (char_of n :: char) = (n::nat)"
  by (simp add: of_char_of)

lemma is_digit_digit_char [simp]: "d < 10 \<Longrightarrow> is_digit (digit_char d)"
  by (simp add: is_digit_def digit_char_def)

lemma nat_digits_all_digits: "list_all is_digit (nat_digits n)"
  by (induction n rule: nat_digits.induct) simp

lemma hd_nat_digits_zero:
  "hd (nat_digits n) = CHR ''0'' \<Longrightarrow> n = 0"
proof (induction n rule: nat_digits.induct)
  case (1 n)
  show ?case
  proof (cases "n < 10")
    case True
    then have "digit_char n = CHR ''0''" using 1(2) by simp
    then have "of_char (digit_char n) = (48 :: nat)" by simp
    with True show ?thesis by (simp add: digit_char_def)
  next
    case False
    then have "nat_digits n = nat_digits (n div 10) @ [digit_char (n mod 10)]" by simp
    then have "hd (nat_digits (n div 10)) = CHR ''0''"
      using 1(2) nat_digits_ne [of "n div 10"] by (simp add: hd_append del: nat_digits.simps)
    with 1(1) False have "n div 10 = 0" by blast
    with False show ?thesis by simp
  qed
qed

lemma nat_digits_Cons: obtains c cs where "nat_digits n = c # cs"
  using nat_digits_ne [of n] by (cases "nat_digits n") (auto simp del: nat_digits.simps)

lemma parse_nat_nat_digits:
  assumes "stops rest"
  shows "parse_nat (nat_digits n @ rest) = Some (n, rest)"
proof -
  obtain c cs where nd: "nat_digits n = c # cs" by (rule nat_digits_Cons)
  have all: "list_all is_digit (c # cs)" using nat_digits_all_digits [of n] nd by simp
  have tw: "takeWhile is_digit (nat_digits n @ rest) = nat_digits n"
    using assms nat_digits_all_digits [of n]
    by (cases rest) (auto simp: stops_def list_all_iff takeWhile_append2 simp del: nat_digits.simps)
  have dw: "dropWhile is_digit (nat_digits n @ rest) = rest"
    using assms nat_digits_all_digits [of n]
    by (cases rest) (auto simp: stops_def list_all_iff dropWhile_append2 simp del: nat_digits.simps)
  show ?thesis
  proof (cases "c = CHR ''0''")
    case True
    then have "n = 0" using hd_nat_digits_zero [of n] nd by simp
    then show ?thesis using nd True by (simp add: parse_nat_def digit_char_def)
  next
    case False
    then show ?thesis using all nd tw dw parse_nat_digits [of n]
      by (simp add: parse_nat_def del: nat_digits.simps parse_nat_digits)
  qed
qed

lemma parse_number_QString_number:
  assumes "stops rest"
  shows "parse_number (QString_number i @ rest) = Some (i, rest)"
proof (cases "i < 0")
  case True
  then show ?thesis using parse_nat_nat_digits [OF assms, of "nat (- i)"]
    by (simp add: parse_number_def QString_number_def del: nat_digits.simps)
next
  case False
  obtain c cs where nd: "nat_digits (nat i) = c # cs" by (rule nat_digits_Cons)
  moreover have "c \<noteq> CHR ''-''" using hd_nat_digits [of "nat i"] nd by simp
  ultimately show ?thesis using parse_nat_nat_digits [OF assms, of "nat i"] False
    by (simp add: parse_number_def QString_number_def del: nat_digits.simps)
qed

lemma hex_val_hex_char [simp]: "d < 16 \<Longrightarrow> hex_val (hex_char d) = Some d"
  by (auto simp: hex_val_def hex_char_def digit_char_def Let_def)

lemma hex_val_zero [simp]: "hex_val (CHR ''0'') = Some 0"
  by (simp add: hex_val_def)

lemma parse_str_escape_char: "parse_str (escape_char c @ t) = cons_fst c (parse_str t)"
proof (cases "c = CHR 0x22 \<or> c = CHR 0x5C \<or> c = CHR 0x08 \<or> c = CHR 0x09 \<or> c = CHR 0x0A \<or> c = CHR 0x0C \<or> c = CHR 0x0D")
  case True
  then show ?thesis by auto
next
  case short: False
  show ?thesis
  proof (cases "of_char c < (32::nat)")
    case True
    define d where "d = (of_char c :: nat)"
    have hex: "hex_val (hex_char (d div 16)) = Some (d div 16)" "hex_val (hex_char (d mod 16)) = Some (d mod 16)"
      using True by (simp_all add: d_def)
    have "((0 * 16 + 0) * 16 + d div 16) * 16 + d mod 16 = d" by simp
    with True hex short show ?thesis by (simp add: d_def [symmetric] Let_def) (simp add: d_def)
  next
    case False
    with short show ?thesis by simp
  qed
qed

lemma parse_str_write:
  "parse_str (concat (map escape_char str) @ CHR 0x22 # rest) = Some (str, rest)"
  by (induction str) (simp_all add: parse_str_escape_char cons_fst_def)

lemma is_digit_not_punct:
  "is_digit c \<Longrightarrow> \<not> is_ws c \<and> c \<noteq> CHR '']'' \<and> c \<noteq> CHR ''}'' \<and> c \<noteq> CHR ''n'' \<and> c \<noteq> CHR ''t''
     \<and> c \<noteq> CHR ''f'' \<and> c \<noteq> CHR 0x22 \<and> c \<noteq> CHR ''['' \<and> c \<noteq> CHR ''{'' \<and> c \<noteq> CHR ''-''"
  by (auto simp: is_digit_def is_ws_def)

lemma QString_number_Cons:
  obtains c r where "QString_number i = c # r" "c = CHR ''-'' \<or> is_digit c"
proof -
  obtain c cs where nd: "nat_digits (nat (if i < 0 then - i else i)) = c # cs" by (rule nat_digits_Cons)
  have "is_digit c" using nat_digits_all_digits [of "nat (if i < 0 then - i else i)"] nd by simp
  with nd that show ?thesis by (cases "i < 0") (simp_all add: QString_number_def del: nat_digits.simps)
qed

lemma write_value_Cons:
  obtains c r where "write_value v = c # r" "\<not> is_ws c" "c \<noteq> CHR '']''" "c \<noteq> CHR ''}''"
proof (cases v)
  case (JInt i)
  obtain c r where "QString_number i = c # r" "c = CHR ''-'' \<or> is_digit c" by (rule QString_number_Cons)
  with JInt that show ?thesis using is_digit_not_punct [of c] by (auto simp: is_ws_def)
next
  case (JBool b)
  with that show ?thesis by (cases b) (simp_all add: is_ws_def)
qed (simp_all add: that is_ws_def write_string_def)

lemma skip_ws_Cons [simp]: "\<not> is_ws c \<Longrightarrow> skip_ws (c # r) = c # r"
  by (simp add: skip_ws_def)

lemma write_elems_Cons:
  assumes "vs \<noteq> []"
  obtains c r where "write_elems vs = c # r" "\<not> is_ws c" "c \<noteq> CHR '']''"
proof -
  obtain v vs' where vs: "vs = v # vs'" using assms by (cases vs) auto
  obtain c r where "write_value v = c # r" "\<not> is_ws c" "c \<noteq> CHR '']''" by (rule write_value_Cons)
  with vs that show ?thesis by (cases vs') auto
qed

lemma write_members_Cons:
  assumes "ms \<noteq> []"
  obtains r where "write_members ms = CHR 0x22 # r"
proof -
  obtain k v ms' where ms: "ms = (k, v) # ms'" using assms by (cases ms) auto
  with that show ?thesis by (cases ms') (auto simp: write_string_def)
qed

lemma write_value_length: "0 < length (write_value v)"
  by (rule write_value_Cons [of v]) simp

lemma value_fuel: "2 * length (write_value v @ rest) \<le> n \<Longrightarrow> \<exists>m. n = Suc m"
  using write_value_length [of v] by (cases n) auto

lemma stops_punct [simp]: "stops (CHR '']'' # r)" "stops (CHR ''}'' # r)" "stops (CHR '','' # r)"
  "stops (CHR 0x0A # r)"
  by (simp_all add: stops_def is_digit_def)

lemma parse_write:
  "2 * length (write_value v @ rest) \<le> n \<Longrightarrow> stops rest \<Longrightarrow>
     parse_value n (write_value v @ rest) = Some (v, rest)"
  "vs \<noteq> [] \<Longrightarrow> 2 * length (write_elems vs @ rest) < n \<Longrightarrow>
     parse_elems n (write_elems vs @ rest) = Some (vs, rest)"
  "ms \<noteq> [] \<Longrightarrow> 2 * length (write_members ms @ rest) < n \<Longrightarrow>
     parse_members n (write_members ms @ rest) = Some (ms, rest)"
proof (induction v and vs and ms arbitrary: n rest and n rest and n rest
    rule: write_value_write_elems_write_members.induct)
  case (1 n rest)
  obtain m where "n = Suc m" using value_fuel [OF "1.prems"(1)] by blast
  then show ?case by (simp add: is_ws_def)
next
  case (2 b n rest)
  obtain m where "n = Suc m" using value_fuel [OF "2.prems"(1)] by blast
  then show ?case by (cases b) (simp_all add: is_ws_def)
next
  case (3 i n rest)
  obtain m where n: "n = Suc m" using value_fuel [OF "3.prems"(1)] by blast
  obtain c r where cr: "QString_number i = c # r" "c = CHR ''-'' \<or> is_digit c" by (rule QString_number_Cons)
  have "parse_number (c # r @ rest) = Some (i, rest)"
    using parse_number_QString_number [OF "3.prems"(2), of i] cr by simp
  with cr n show ?case using is_digit_not_punct [of c] by (auto simp: is_ws_def)
next
  case (4 str n rest)
  obtain m where "n = Suc m" using value_fuel [OF "4.prems"(1)] by blast
  then show ?case by (simp add: is_ws_def write_string_def parse_str_write)
next
  case (5 vs n rest)
  obtain m where n: "n = Suc m" using value_fuel [OF "5.prems"(1)] by blast
  show ?case
  proof (cases "vs = []")
    case True
    with n show ?thesis by (simp add: is_ws_def)
  next
    case False
    obtain c r where cr: "write_elems vs = c # r" "\<not> is_ws c" "c \<noteq> CHR '']''"
      using False by (rule write_elems_Cons)
    have "parse_elems m (write_elems vs @ rest) = Some (vs, rest)"
      using "5.IH" [OF False] "5.prems"(1) n by simp
    with cr n show ?thesis by (simp add: is_ws_def)
  qed
next
  case (6 ms n rest)
  obtain m where n: "n = Suc m" using value_fuel [OF "6.prems"(1)] by blast
  show ?case
  proof (cases "ms = []")
    case True
    with n show ?thesis by (simp add: is_ws_def)
  next
    case False
    obtain r where r: "write_members ms = CHR 0x22 # r" using False by (rule write_members_Cons)
    have "parse_members m (write_members ms @ rest) = Some (ms, rest)"
      using "6.IH" [OF False] "6.prems"(1) n by simp
    with r n show ?thesis by (simp add: is_ws_def)
  qed
next
  case (7 n rest)
  then show ?case by simp
next
  case (8 v n rest)
  then obtain m where n: "n = Suc m" by (cases n) auto
  have "parse_value m (write_value v @ CHR '']'' # rest) = Some (v, CHR '']'' # rest)"
    using "8.IH" [of "CHR '']'' # rest" m] "8.prems"(2) n by simp
  with n show ?case by (simp add: is_ws_def)
next
  case (9 v w vs n rest)
  then obtain m where n: "n = Suc m" by (cases n) auto
  let ?tl = "write_elems (w # vs) @ rest"
  have "parse_value m (write_value v @ CHR '','' # ?tl) = Some (v, CHR '','' # ?tl)"
    using "9.IH"(1) [of "CHR '','' # ?tl" m] "9.prems"(2) n by simp
  moreover have "parse_elems m ?tl = Some (w # vs, rest)"
    using "9.IH"(2) [of rest m] "9.prems"(2) n write_value_length [of v] by simp
  ultimately show ?case using n by (simp add: is_ws_def cons_fst_def)
next
  case (10 n rest)
  then show ?case by simp
next
  case (11 k v n rest)
  then obtain m where n: "n = Suc m" by (cases n) auto
  have "parse_value m (write_value v @ CHR ''}'' # rest) = Some (v, CHR ''}'' # rest)"
    using "11.IH" [of "CHR ''}'' # rest" m] "11.prems"(2) n by (simp add: write_string_def)
  with n show ?case by (simp add: is_ws_def write_string_def parse_str_write)
next
  case (12 k v m' ms n rest)
  then obtain m where n: "n = Suc m" by (cases n) auto
  let ?tl = "write_members (m' # ms) @ rest"
  have "parse_value m (write_value v @ CHR '','' # ?tl) = Some (v, CHR '','' # ?tl)"
    using "12.IH"(1) [of "CHR '','' # ?tl" m] "12.prems"(2) n by (simp add: write_string_def)
  moreover have "parse_members m ?tl = Some (m' # ms, rest)"
    using "12.IH"(2) [of rest m] "12.prems"(2) n write_value_length [of v] by (simp add: write_string_def)
  ultimately show ?case using n by (simp add: is_ws_def cons_fst_def write_string_def parse_str_write)
qed

lemma hex_char_not_nl: "d < 16 \<Longrightarrow> hex_char d \<noteq> CHR 0x0A"
  by (auto simp: hex_char_def digit_char_def dest: arg_cong [where f = "of_char :: char \<Rightarrow> nat"])

lemma escape_char_no_nl: "CHR 0x0A \<notin> set (escape_char c)"
proof -
  have "(of_char c :: nat) div 16 < 16" using nat_of_char_less_256 [of c] by (simp add: less_mult_imp_div_less)
  then show ?thesis using hex_char_not_nl [of "of_char c div 16"] hex_char_not_nl [of "of_char c mod 16"]
    by auto
qed

lemma QString_number_no_nl: "CHR 0x0A \<notin> set (QString_number i)"
proof -
  have "CHR 0x0A \<notin> set (nat_digits n)" for n
    using nat_digits_all_digits [of n] by (auto simp: list_all_iff is_digit_def simp del: nat_digits.simps)
  then show ?thesis by (simp add: QString_number_def del: nat_digits.simps)
qed

lemma write_no_nl:
  "CHR 0x0A \<notin> set (write_value v)" "CHR 0x0A \<notin> set (write_elems vs)" "CHR 0x0A \<notin> set (write_members ms)"
  by (induction v and vs and ms rule: write_value_write_elems_write_members.induct)
    (simp_all add: write_string_def escape_char_no_nl QString_number_no_nl del: escape_char.simps)

lemma json_frame_is_frame: "is_frame (json_frame v)"
  using write_no_nl(1) [of v] by (simp add: is_frame_def json_frame_def)

lemma json_parse_json_frame: "json_parse (json_frame v) = Some v"
proof -
  have "parse_value (2 * length (json_frame v)) (json_frame v) = Some (v, [CHR 0x0A])"
    using parse_write(1) [of v "[CHR 0x0A]" "2 * length (json_frame v)"]
    by (simp add: json_frame_def del: parse_value.simps)
  then show ?thesis
    by (simp add: json_parse_def skip_ws_def is_ws_def del: parse_value.simps)
qed

text \<open>
  C12: \<open>RemDev::sendDocument\<close> and the read loop of \<open>NetDev::handleData\<close> agree on
  the JSON text: when a written document, followed by its line feed, is at the head of the
  receive buffer, one turn of the loop reads exactly that line and hands
  \<open>RemDev::handleItem\<close> the document itself, with the line's length, and the loop
  goes on with the bytes after it.
\<close>

theorem json_frame_roundtrip:
  "readLines ser json_parse (json_frame v @ rest) (d, sk) =
     (let d' = handleItem (length (json_frame v)) (Some v) d
      in readLines ser json_parse rest (d', hooks ser d d' sk))"
proof -
  have "readLine (json_frame v @ rest) = (json_frame v, rest)"
    using readLine_frame [OF write_no_nl(1) [of v], of rest] by (simp add: json_frame_def)
  moreover have "canReadLine (json_frame v @ rest)" by (simp add: json_frame_def canReadLine_def)
  ultimately show ?thesis by (simp add: readLines_step json_parse_json_frame)
qed

text \<open>
  The reader accepts one document per text: two frames that arrive without being split
  at the line feed are rejected, which is why \<open>RemDev::handleData\<close> parses line by line.
\<close>

lemma json_parse_two_frames: "json_parse (json_frame v @ json_frame w) = None"
proof -
  let ?rest = "CHR 0x0A # json_frame w"
  have "parse_value (2 * length (json_frame v @ json_frame w)) (write_value v @ ?rest) = Some (v, ?rest)"
    by (rule parse_write(1)) (simp_all add: json_frame_def)
  moreover obtain c r where "write_value w = c # r" "\<not> is_ws c" by (rule write_value_Cons)
  ultimately show ?thesis
    by (simp add: json_parse_def json_frame_def skip_ws_def is_ws_def del: parse_value.simps)
qed

end
