(* ===== verification/Spec2Isabelle.thy ===== *)
theory Spec2Isabelle
  imports DevMgr_Threads MainWindow Listener Pipeline Json_Text
begin

text \<open>
  \<^bold>\<open>DDX verification development.\<close> A shallow embedding of the C++/Qt sources of DDX
  under \<open>src/\<close>: the DDX-RPC connection of the test GUI (\<open>src/DDX-testgui/remdev.h\<close>),
  its TCP/TLS transport (\<open>netdev.cpp\<close>), the device registry (\<open>devmgr.cpp\<close>), and the
  daemon's listener and pipeline registry (\<open>src/DDX-daemon/network.cpp\<close>,
  \<open>path.cpp\<close>, \<open>data.h\<close>).

  \<^bold>\<open>How the parts interact.\<close> A \<open>RemDev\<close> is one connection: it frames outgoing
  requests, responses and notifications, correlates responses with pending requests
  by a 32-bit id, times requests and the registration out, and notifies
  \<open>deviceDisconnected\<close> once when it closes. \<open>NetDev\<close> subclasses it: it owns the
  \<open>QSslSocket\<close>, splits the bytes it receives into lines for \<open>RemDev::handleItem\<close>,
  and implements the \<open>writeItem\<close> and \<open>terminate\<close> overrides on the socket.
  \<open>DevMgr\<close> keeps the list of live devices under a \<open>QMutex\<close> and closes them all
  on shutdown; each close calls back into \<open>removeDevice\<close>. The daemon side accepts
  sockets (\<open>Network\<close>), logs them and sweeps disconnected ones; \<open>Path\<close> names
  pipeline modules.

  \<^bold>\<open>Theories.\<close>
  \<^item> \<open>DDX_Prelude\<close>: machine types (\<open>qint64\<close> as \<open>64 word\<close>, \<open>LocalId\<close> as
    \<open>32 word\<close>), association lists for \<open>QHash\<close>, the collections \<open>ddx_inv\<close> and
    \<open>ddx_frame\<close>, shared lemmas on lists, maps and signed words (\<open>sint_incr_32\<close>).
  \<^item> \<open>Qt_Text\<close>: \<open>QString::number\<close>, \<open>trimmed\<close>, \<open>canReadLine\<close> and
    \<open>readLine\<close>, with and without its \<open>maxSize\<close> argument (\<open>readLine_max\<close>
    reads at most \<open>maxSize - 1\<close> bytes), modelled from Qt's documentation (library
    code); decimal printing is injective, a line read leaves exactly the bytes after it,
    and a size one more than the buffer reads the whole line.
  \<^item> \<open>RemDev_Types\<close>: the enumerations and structs of \<open>remdev.h\<close> (roles as a bit
    mask, disconnect reasons, registration flags, \<open>RequestRef\<close> with \<open>valid\<close>).
    Lemmas: the role mask round trip and the deadline arithmetic of \<open>valid\<close> at 64
    bits, including the wrap-around of \<open>timeout + t_sent\<close>: a deadline past
    \<open>INT64_MAX\<close> becomes negative and the request is invalid at every positive time.
  \<^item> \<open>Wire_Codec\<close>: the DDX-RPC envelope as a JSON value (\<open>MsgRequest\<close>,
    \<open>MsgResponse\<close>, \<open>MsgNotification\<close>) with encoder and the decoder of
    \<open>handleItem\<close>; the round trips encode/decode. The transport (\<open>NetDev\<close>) is
    parametric in a serializer \<open>ser\<close> and a parser \<open>parse\<close>, which
    \<open>Json_Text\<close> instantiates.
  \<^item> \<open>Json_Text\<close>: the JSON text of the documents, after RapidJSON's \<open>Writer\<close>
    (\<open>write_value\<close>, no white space; strings escape the quotation mark, the backslash
    and every control character) and \<open>Reader\<close> (\<open>parse_value\<close>, a mutually
    recursive descent over values, array elements and object members, with fuel), and
    \<open>json_frame\<close>, the document followed by a line feed as \<open>RemDev::sendDocument\<close>
    writes it. Lemmas: the reader inverts the writer on every document with any
    continuation that does not start with a digit (\<open>parse_write\<close>, by mutual
    induction on the writer), a written document contains no line feed, so a frame is
    one line; two frames glued together are rejected.
  \<^item> \<open>Correlation\<close>: \<open>RemDev::reqs\<close> and \<open>lastId\<close>; insert, take, the timeout
    split and handler destruction are read through \<open>map_of\<close> and keep the keys
    distinct; \<open>++lastId\<close> adds one except at \<open>INT_MAX\<close>, where it wraps.
  \<^item> \<open>Connection\<close>: the \<open>RemDev\<close> record and one definition per method
    (\<open>sendRequest\<close>, \<open>sendNotification\<close>, \<open>handleItem\<close>, \<open>handleResponse\<close>,
    \<open>timeoutPoll\<close>, \<open>close\<close>, registration), the event datatype and the step
    relation \<open>conn_reachable\<close>. Lemmas: the invariant \<open>conn_inv\<close> is preserved by
    every event (rule induction), at most one disconnect notification, close is
    idempotent, late responses are discarded, every response is verified before it is
    delivered, the id sequence is strictly increasing, and a pending request is kept by
    every poll up to its deadline \<open>t0 + T\<close> and answered with exactly one timeout
    error by every poll after it (\<open>request_timeout_exact\<close>); scenario runs.
  \<^item> \<open>NetDev\<close>: the socket record, constructors \<open>sub_init\<close>, the overrides
    \<open>writeItem\<close>/\<open>terminate\<close> and the slots \<open>handleData\<close>,
    \<open>handleDisconnection\<close>, \<open>handleNetworkError\<close>. The line loop \<open>readLines\<close>
    is a \<open>function\<close> whose termination measure is the buffer length; it reads with
    \<open>readLine(bytesAvailable() + 1)\<close> as the source does. \<open>deleteLater\<close> is
    deferred: it sets a flag (of the socket, or of the \<open>NetDev\<close> itself) and the
    event \<open>DeferredDelete\<close> of \<open>nd_step\<close> frees the object; a hook that reaches
    a freed socket (\<open>rd_apply\<close>, \<open>touches_socket\<close>) is the error
    \<open>DanglingSocket\<close>. The slots run only once \<open>sub_init\<close> has connected them,
    which it does exactly when it reaches \<open>connectionReady()\<close> (\<open>ready\<close>). Lemmas:
    the socket's bytes are exactly the serialisation of the connection's frames, a freed
    socket or \<open>NetDev\<close> never had its slots connected, and while neither is freed every
    event succeeds (refinement of \<open>Connection\<close> by \<open>NetDev\<close> over the reachable
    states \<open>nd_reachable\<close>); framing and chunk independence of \<open>handleData\<close>; the
    unconnected branch of \<open>sub_init\<close> leaves a pointer that dangles once the event
    loop has run.
  \<^item> \<open>DevMgr\<close>: the registry with an explicit heap of connections and the mutex as a
    flag; re-locking it is the error \<open>Deadlock\<close>. \<open>closeAll_loop\<close> is a
    \<open>function\<close> over the shrinking device list. Lemmas: \<open>closeAll\<close> closes every
    device once and never deadlocks, thanks to the \<open>closing\<close> guard of
    \<open>removeDevice\<close>; provisional names are consecutive, and the 32-bit counter
    \<open>unregCt\<close> wraps after \<open>INT_MAX\<close>.
  \<^item> \<open>DevMgr_Threads\<close>: the same three methods of \<open>devmgr.cpp\<close> statement by statement
    (\<open>dm_act\<close>, \<open>exec\<close>), one continuation per thread, the mutex with its owner thread
    (blocking for other threads, \<open>Deadlock\<close> for the owner), every interleaving as the
    inductive \<open>dm_reach\<close> and explicit schedules as \<open>run\<close>. Lemmas: the invariant
    \<open>dm_inv\<close> (the program counter of each thread, who holds the mutex, \<open>closing\<close>
    raised while the closer holds it, live devices) is preserved by every step; hence with
    one \<open>closeAll\<close> thread no interleaving errs or gets stuck; and from every idle
    registry of live devices, two overlapping \<open>closeAll\<close> calls and one
    \<open>addDevice\<close> deadlock under a schedule built from the number of devices
    (\<open>closeAll_loop_run\<close> runs the closer's loop), because \<open>closing\<close> is a flag,
    not a count.
  \<^item> \<open>MainWindow\<close>: the members and the inline \<open>getLogArea\<close> of \<open>mainwindow.h\<close>,
    the line \<open>DevMgr\<close>'s constructor appends to the log area, and the delivery of a
    device's \<open>postToLogArea\<close> once per connection \<open>addDevice\<close> made (a device added
    twice has each of its lines shown twice).
  \<^item> \<open>Listener\<close>: \<open>Network\<close> with its server, the hash and list of sockets and a
    heap of \<open>QTcpSocket\<close> states. \<open>sweep_ur\<close> (the index loop with
    \<open>removeAt\<close>) is a \<open>function\<close> and is shown equal to a \<open>filter\<close>. The
    destructor \<open>~Network\<close> is \<open>destroy_Network\<close>: its \<open>qDeleteAll\<close> loops
    (\<open>delete_all\<close>) keep the list of freed sockets, and the \<open>disconnected\<close> signal a
    connected socket's destructor emits runs the slot inside the loop
    (\<open>handleDisconnection_in\<close>: both sweeps of \<open>handleDisconnection\<close>, reading
    every socket of the containers, freed ones included); reading a freed socket is
    \<open>UseAfterFree\<close>, and a slot that changes the container being iterated is
    \<open>ContainerModified\<close>. The theorem \<open>destroy_Network_result\<close> says exactly when
    destruction is clean and which error comes first otherwise.
  \<^item> \<open>Pipeline\<close>: \<open>Path\<close> (flags, alerts, default names) and
    \<open>Column\<close>. The search loop of
    \<open>Path::getDefaultModuleName\<close> is a \<open>partial_function (option)\<close>; the theorem
    \<open>getDefaultModuleName_terminates\<close> proves it always returns \<open>Some\<close>, by the
    measure \<open>card S - j\<close> over the finite set of taken names.

  \<^bold>\<open>Across components\<close> (this theory). \<open>stream_delivery\<close> composes two
  \<open>NetDev\<close>s: the bytes a reachable sender has written (the refinement invariant of
  \<open>NetDev\<close>) are framed by the receiver's \<open>handleData\<close> into exactly the sender's
  frames, in order, whenever the serializer writes one newline-terminated line per frame
  that the parser maps back to its envelope (\<open>stream_delivery_codec\<close>). The JSON
  writer and reader of \<open>Json_Text\<close> satisfy that contract, so \<open>stream_delivery\<close>
  states the delivery for the JSON text with no assumption on the codec.

  \<^bold>\<open>Bounds and fuel.\<close> Only the JSON reader uses fuel: \<open>json_parse\<close> gives
  \<open>parse_value\<close> twice the length of the text, which is enough, because every call
  either consumes a character or hands the same text to a call that does (an array
  element goes to \<open>parse_value\<close> before anything is consumed); \<open>parse_write\<close>
  proves that this fuel reads back every written document. \<open>handleData\<close>'s size
  argument \<open>bytesAvailable() + 1\<close> is one more than the buffer, enough for
  \<open>readLine\<close> to take the whole first line (\<open>readLine_max_full\<close>). Other loops are \<open>function\<close>s with a
  \<open>termination\<close> proof, except the name search, whose totality is a theorem. Integer
  widths are those of the source: ids and \<open>unregCt\<close> are \<open>32 word\<close> read by
  \<open>sint\<close>, timestamps \<open>64 word\<close>, ports \<open>16 word\<close> (the narrowing of
  \<open>quint16\<close> is written out).

  \<^bold>\<open>Not modelled.\<close> The constructor, destructor and \<open>newTestDevice\<close> slot of
  \<open>MainWindow\<close>, defined in \<open>mainwindow.cpp\<close>, which is not in the repository; the TLS handshake and the
  kernel sockets (\<open>QSslSocket\<close> and \<open>QTcpServer\<close> are library code: only the
  state the sources read and set is modelled); of RapidJSON's text, the numbers other than
  integers (a \<open>jvalue\<close> holds none) and \<open>\uXXXX\<close> escapes of code points
  above 0x7F (UTF-16 surrogates; the reader refuses them), since the writer never
  produces either; threads other
  than those of \<open>DevMgr\<close>, since the other objects are each confined to one thread
  by the sources or by the spec (signal delivery is modelled as the direct call a
  \<open>Qt::DirectConnection\<close> performs); \<open>UnitManager\<close> (\<open>unitmanager.cpp\<close>),
  since each of its methods goes through the member pointer \<open>modules\<close>, declared in
  the absent \<open>unitmanager.h\<close> and allocated by no line of the sources, and its types
  come from \<open>registerModules\<close>, generated into the absent
  \<open>modules/module_register.cpp\<close>; \<open>Path::init\<close> and
  \<open>Path::start\<close>, whose bodies are empty or commented out; \<open>remdev.cpp\<close>, which is
  absent from the repository (the out-of-line members it would define are modelled from
  \<open>spec.md\<close>).
\<close>

section \<open>Properties spanning components\<close>

lemma fold_handleItem_frames:
  assumes "list_all (\<lambda>m. parse (ser m) = Some (encode_message m)) ms"
  shows "fold (\<lambda>l d. handleItem (length l) (parse l) d) (map ser ms) d =
         fold (\<lambda>m d. handleItem (length (ser m)) (Some (encode_message m)) d) ms d"
  using assms by (induction ms arbitrary: d) simp_all

text \<open>
  End-to-end delivery for any codec: when every frame a reachable sending connection has
  written is one newline-terminated line that the receiver's parser maps back to the
  frame's JSON envelope, the receiver handles exactly the sender's frames.
\<close>

lemma stream_delivery_codec:
  assumes client: "nd_reachable ser parse c" and sc: "s c = Some skc"
    and srv: "s v = Some sk" and rdy: "ready v" and enc: "sk_encrypted sk" and empty: "rbuf sk = []"
    and codec: "list_all (\<lambda>m. is_frame (ser m) \<and> parse (ser m) = Some (encode_message m)) (wire (rd c))"
  shows "\<exists>v'. nd_step ser parse now (BytesArrived (wbuf skc)) v = Inr v' \<and>
              rd v' = fold (\<lambda>m d. handleItem (length (ser m)) (Some (encode_message m)) d) (wire (rd c)) (rd v) \<and>
              map_option rbuf (s v') = Some []"
proof -
  have w: "wbuf skc = concat (map ser (wire (rd c))) @ []"
    using nd_reachable_inv [OF client] sc by (simp add: nd_inv_def)
  have fr: "list_all is_frame (map ser (wire (rd c)))" and pr: "list_all (\<lambda>m. parse (ser m) = Some (encode_message m)) (wire (rd c))"
    using codec by (simp_all add: list_all_iff)
  have nl: "\<not> canReadLine []" by (simp add: canReadLine_def)
  obtain d' sk' where D: "deliver_lines ser parse (map ser (wire (rd c))) (rd v, sk\<lparr>rbuf := wbuf skc\<rparr>) = (d', sk')"
    by fastforce
  have "readLines ser parse (wbuf skc) (rd v, sk\<lparr>rbuf := wbuf skc\<rparr>) = ([], d', sk')"
    using readLines_frames [OF fr nl, where st = "(rd v, sk\<lparr>rbuf := wbuf skc\<rparr>)"] w D by simp
  moreover have "d' = fold (\<lambda>l d. handleItem (length l) (parse l) d) (map ser (wire (rd c))) (rd v)"
    using deliver_lines_rd [of ser parse "map ser (wire (rd c))" "rd v" "sk\<lparr>rbuf := wbuf skc\<rparr>"] D by simp
  ultimately show ?thesis
    using srv rdy enc empty fold_handleItem_frames [OF pr]
    by (simp add: handleData_def Let_def)
qed

text \<open>
  C11: end-to-end delivery between two \<open>NetDev\<close>s over the JSON text: the bytes a
  reachable sending connection has written to its socket (each frame written by
  RapidJSON's writer and followed by a line feed), arriving at a ready receiver (its slots
  connected) whose TLS socket is established with an empty buffer, are handled by the receiving \<open>RemDev\<close> as
  exactly the sender's frames, in order, each with its line length, and nothing stays
  buffered.
\<close>

theorem stream_delivery:
  assumes client: "nd_reachable (json_frame \<circ> encode_message) json_parse c" and sc: "s c = Some skc"
    and srv: "s v = Some sk" and rdy: "ready v" and enc: "sk_encrypted sk" and empty: "rbuf sk = []"
  shows "\<exists>v'. nd_step (json_frame \<circ> encode_message) json_parse now (BytesArrived (wbuf skc)) v = Inr v' \<and>
              rd v' = fold (\<lambda>m d. handleItem (length (json_frame (encode_message m))) (Some (encode_message m)) d)
                        (wire (rd c)) (rd v) \<and>
              map_option rbuf (s v') = Some []"
proof -
  have "list_all (\<lambda>m. is_frame ((json_frame \<circ> encode_message) m) \<and>
                      json_parse ((json_frame \<circ> encode_message) m) = Some (encode_message m)) (wire (rd c))"
    by (simp add: list_all_iff json_frame_is_frame json_parse_json_frame)
  from stream_delivery_codec [OF client sc srv rdy enc empty this] show ?thesis
    unfolding comp_def .
qed

section \<open>Witnesses\<close>

theorem stream_delivery_witness:
  "let env = \<lparr>descriptorAccepted = True, env_state = ConnectedState, env_peer = LocalHost,
              env_peer_text = ''127.0.0.1:52000''\<rparr>;
       c0 = sub_init env (NetDev_inbound (init_RemDev ''Unknown1'' True 4096 30000 1000) 5);
       c = projr (nd_step (json_frame \<circ> encode_message) json_parse 1000 (RdEvent (SendNotification ''hello'' None)) c0);
       sk = new_QSslSocket\<lparr>sk_encrypted := True\<rparr>;
       v = (NetDev_inbound (init_RemDev ''Unknown2'' True 4096 30000 1000) 6)\<lparr>s := Some sk, ready := True\<rparr>
   in nd_reachable (json_frame \<circ> encode_message) json_parse c \<and> s c = Some (the (s c)) \<and>
      wire (rd c) = [MsgNotification ''hello'' None] \<and>
      wbuf (the (s c)) = json_frame (JObject [(''method'', JString ''hello'')]) \<and>
      (\<exists>v'. nd_step (json_frame \<circ> encode_message) json_parse 1001 (BytesArrived (wbuf (the (s c)))) v = Inr v' \<and>
         rd v' = fold (\<lambda>m d. handleItem (length (json_frame (encode_message m))) (Some (encode_message m)) d)
                   (wire (rd c)) (rd v) \<and>
         map_option rbuf (s v') = Some [])"
proof -
  define env where "env = \<lparr>descriptorAccepted = True, env_state = ConnectedState, env_peer = LocalHost,
              env_peer_text = ''127.0.0.1:52000''\<rparr>"
  define c0 where "c0 = sub_init env (NetDev_inbound (init_RemDev ''Unknown1'' True 4096 30000 1000) 5)"
  define c where "c = projr (nd_step (json_frame \<circ> encode_message) json_parse 1000 (RdEvent (SendNotification ''hello'' None)) c0)"
  define sk where "sk = new_QSslSocket\<lparr>sk_encrypted := True\<rparr>"
  define v where "v = (NetDev_inbound (init_RemDev ''Unknown2'' True 4096 30000 1000) 6)\<lparr>s := Some sk, ready := True\<rparr>"
  have st: "nd_step (json_frame \<circ> encode_message) json_parse 1000 (RdEvent (SendNotification ''hello'' None)) c0 = Inr c"
    unfolding c_def c0_def env_def by code_simp
  have r: "nd_reachable (json_frame \<circ> encode_message) json_parse c"
    by (rule nd_reachable.step [OF _ st]) (unfold c0_def, rule nd_reachable.inbound)
  have sc: "s c = Some (the (s c))" and wc: "wire (rd c) = [MsgNotification ''hello'' None]"
    and wb: "wbuf (the (s c)) = json_frame (JObject [(''method'', JString ''hello'')])"
    unfolding c_def c0_def env_def by code_simp+
  have h: "s v = Some sk" "ready v" "sk_encrypted sk" "rbuf sk = []"
    by (simp_all add: v_def sk_def new_QSslSocket_def)
  show ?thesis unfolding Let_def env_def [symmetric]
      c0_def [symmetric] c_def [symmetric] sk_def [symmetric] v_def [symmetric]
    using r sc wc wb stream_delivery [OF r sc h, of 1001] by blast
qed

end
